theory Spec2Isabelle
  imports Complex_Main "HOL-Library.Char_ord" "HOL-Library.List_Lexorder" "HOL-Library.Multiset"
begin

section \<open>Go strings\<close>

text \<open>
  The index builder is written in Go. A Go string is a sequence of bytes, so it is a
  \<^typ>\<open>string\<close> here (a list of 8-bit characters); \<open>len\<close>, slicing, \<open>strings.Replace\<close>,
  \<open>strings.TrimPrefix\<close> and \<open>strings.TrimSuffix\<close> work on the bytes. The regular expression
  and the case mappings of the standard library read the bytes as UTF-8, one rune at a
  time, and take every byte that does not start a well-formed sequence as the rune
  U+FFFD of width 1. A rune is an \<^typ>\<open>int\<close>, as Go's \<open>int32\<close>.
\<close>

definition has_prefix :: "string \<Rightarrow> string \<Rightarrow> bool" where
  "has_prefix s p = (take (length p) s = p)"

definition has_suffix :: "string \<Rightarrow> string \<Rightarrow> bool" where
  "has_suffix s p = (length p \<le> length s \<and> drop (length s - length p) s = p)"

definition strings_TrimPrefix :: "string \<Rightarrow> string \<Rightarrow> string" where
  "strings_TrimPrefix s p = (if has_prefix s p then drop (length p) s else s)"

definition strings_TrimSuffix :: "string \<Rightarrow> string \<Rightarrow> string" where
  "strings_TrimSuffix s p = (if has_suffix s p then take (length s - length p) s else s)"

text \<open>
  \<open>strings.Replace(s, old, new, n)\<close> replaces the first \<open>n\<close> non-overlapping occurrences of
  \<open>old\<close>, scanning from the left; a negative \<open>n\<close> means no limit. The scan below carries the
  number of bytes of a matched occurrence still to be skipped. Every call of the program
  passes a non-empty \<open>old\<close>.
\<close>

fun replace_scan :: "string \<Rightarrow> string \<Rightarrow> nat \<Rightarrow> int \<Rightarrow> string \<Rightarrow> string" where
  "replace_scan old new skip n [] = []"
| "replace_scan old new (Suc k) n (c # cs) = replace_scan old new k n cs"
| "replace_scan old new 0 n (c # cs) =
     (if n \<noteq> 0 \<and> has_prefix (c # cs) old
      then new @ replace_scan old new (length old - 1) (n - 1) cs
      else c # replace_scan old new 0 n cs)"

definition strings_Replace :: "string \<Rightarrow> string \<Rightarrow> string \<Rightarrow> int \<Rightarrow> string" where
  "strings_Replace s old new n = replace_scan old new 0 n s"

subsection \<open>UTF-8\<close>

definition RuneError :: int where
  "RuneError = 0xFFFD"

text \<open>
  The table \<open>first\<close> of package \<open>unicode/utf8\<close>: for a byte that starts a sequence of two
  to four bytes, the length of the sequence and the range accepted for its second byte.
\<close>

definition utf8_first :: "int \<Rightarrow> (nat \<times> int \<times> int) option" where
  "utf8_first b =
     (if 0xC2 \<le> b \<and> b \<le> 0xDF then Some (2, 0x80, 0xBF)
      else if b = 0xE0 then Some (3, 0xA0, 0xBF)
      else if 0xE1 \<le> b \<and> b \<le> 0xEC then Some (3, 0x80, 0xBF)
      else if b = 0xED then Some (3, 0x80, 0x9F)
      else if b = 0xEE \<or> b = 0xEF then Some (3, 0x80, 0xBF)
      else if b = 0xF0 then Some (4, 0x90, 0xBF)
      else if 0xF1 \<le> b \<and> b \<le> 0xF3 then Some (4, 0x80, 0xBF)
      else if b = 0xF4 then Some (4, 0x80, 0x8F)
      else None)"

definition continuation :: "int \<Rightarrow> bool" where
  "continuation b = (0x80 \<le> b \<and> b \<le> 0xBF)"

text \<open>\<open>utf8.DecodeRune\<close> on the byte values: the rune and its width.\<close>

fun DecodeRune :: "int list \<Rightarrow> int \<times> nat" where
  "DecodeRune [] = (RuneError, 0)"
| "DecodeRune (b0 # bs) =
     (case utf8_first b0 of
        None \<Rightarrow> (if b0 < 0x80 then b0 else RuneError, 1)
      | Some (sz, lo, hi) \<Rightarrow>
          if length bs + 1 < sz then (RuneError, 1)
          else if bs ! 0 < lo \<or> hi < bs ! 0 then (RuneError, 1)
          else if sz \<le> 2 then ((b0 mod 32) * 64 + bs ! 0 mod 64, 2)
          else if \<not> continuation (bs ! 1) then (RuneError, 1)
          else if sz \<le> 3 then ((b0 mod 16) * 4096 + (bs ! 0 mod 64) * 64 + bs ! 1 mod 64, 3)
          else if \<not> continuation (bs ! 2) then (RuneError, 1)
          else ((b0 mod 8) * 262144 + (bs ! 0 mod 64) * 4096 + (bs ! 1 mod 64) * 64
                + bs ! 2 mod 64, 4))"

text \<open>\<open>utf8.DecodeRuneInString\<close> reads the first four bytes at most.\<close>

definition DecodeRuneInString :: "string \<Rightarrow> int \<times> nat" where
  "DecodeRuneInString s = DecodeRune (map of_char (take 4 s))"

text \<open>
  What \<open>for _, c := range s\<close> and the regular expression engine see: the runes of the
  string from left to right, each with the bytes it was read from.
\<close>

fun utf8_runes :: "string \<Rightarrow> (int \<times> string) list" where
  "utf8_runes [] = []"
| "utf8_runes (c # cs) =
     (case DecodeRuneInString (c # cs) of
        (r, width) \<Rightarrow> (r, c # take (width - 1) cs) # utf8_runes (drop (width - 1) cs))"

text \<open>
  \<open>utf8.AppendRune\<close>: negative values, surrogates and values beyond U+10FFFF are written
  as U+FFFD.
\<close>

definition EncodeRune :: "int \<Rightarrow> string" where
  "EncodeRune r =
     (if 0 \<le> r \<and> r < 0x80 then [char_of r]
      else if 0 \<le> r \<and> r < 0x800 then [char_of (0xC0 + r div 64), char_of (0x80 + r mod 64)]
      else if r < 0 \<or> 0x10FFFF < r \<or> (0xD800 \<le> r \<and> r \<le> 0xDFFF)
        then [CHR 0xEF, CHR 0xBF, CHR 0xBD]
      else if r < 0x10000
        then [char_of (0xE0 + r div 4096), char_of (0x80 + r div 64 mod 64),
              char_of (0x80 + r mod 64)]
      else [char_of (0xF0 + r div 262144), char_of (0x80 + r div 4096 mod 64),
            char_of (0x80 + r div 64 mod 64), char_of (0x80 + r mod 64)])"

section \<open>The identifier generator\<close>

text \<open>The character class \<open>[a-zA-Z0-9\-_]\<close>, on runes.\<close>

definition id_rune :: "int \<Rightarrow> bool" where
  "id_rune r =
     ((97 \<le> r \<and> r \<le> 122) \<or> (65 \<le> r \<and> r \<le> 90) \<or> (48 \<le> r \<and> r \<le> 57) \<or> r = 45 \<or> r = 95)"

text \<open>
  \<open>regexp.MustCompile(`[^a-zA-Z0-9\-_]`).ReplaceAllString(s, "_")\<close>: every rune outside
  the class is one match, replaced by one underscore.
\<close>

definition replace_invalid :: "string \<Rightarrow> string" where
  "replace_invalid s =
     concat (map (\<lambda>(r, bs). if id_rune r then bs else ''_'') (utf8_runes s))"

definition base_path :: string where
  "base_path = ''/freedevtools/svg_icons/''"

text \<open>
  \<open>generateIconIDFromPath\<close>. The helper \<open>sanitizeID\<close> it calls is not among the sources, so
  it is a parameter.
\<close>

definition generateIconIDFromPath :: "(string \<Rightarrow> string) \<Rightarrow> string \<Rightarrow> string" where
  "generateIconIDFromPath sanitizeID path =
     (let cleanPath = strings_Replace path base_path '''' 1;
          cleanPath = strings_TrimSuffix cleanPath ''/'';
          cleanPath = strings_Replace cleanPath ''/'' ''-'' (- 1);
          cleanPath = replace_invalid cleanPath
      in ''svg-icons-'' @ sanitizeID cleanPath)"

section \<open>Display names\<close>

text \<open>
  \<open>unicode.IsSpace\<close>: the white space of Latin-1 and the table \<open>White_Space\<close>.
\<close>

definition unicode_IsSpace :: "int \<Rightarrow> bool" where
  "unicode_IsSpace r =
     ((9 \<le> r \<and> r \<le> 13) \<or> r = 0x20 \<or> r = 0x85 \<or> r = 0xA0 \<or> r = 0x1680
      \<or> (0x2000 \<le> r \<and> r \<le> 0x200A) \<or> r = 0x2028 \<or> r = 0x2029 \<or> r = 0x202F
      \<or> r = 0x205F \<or> r = 0x3000)"

text \<open>
  \<open>strings.Fields\<close>: the maximal runs of runes that are not white space, as byte spans of
  the string. \<open>cur\<close> is the field being read.
\<close>

fun fields_scan :: "(int \<times> string) list \<Rightarrow> string \<Rightarrow> string list" where
  "fields_scan [] cur = (if cur = [] then [] else [cur])"
| "fields_scan ((r, bs) # rs) cur =
     (if unicode_IsSpace r then (if cur = [] then [] else [cur]) @ fields_scan rs []
      else fields_scan rs (cur @ bs))"

definition strings_Fields :: "string \<Rightarrow> string list" where
  "strings_Fields s = fields_scan (utf8_runes s) []"

fun strings_Join :: "string list \<Rightarrow> string \<Rightarrow> string" where
  "strings_Join [] sep = []"
| "strings_Join [w] sep = w"
| "strings_Join (w # ws) sep = w @ sep @ strings_Join ws sep"

text \<open>
  The case tables of package \<open>unicode\<close> beyond ASCII are data of the Go runtime, not of this
  program: they are a parameter, the simple upper-case and lower-case mapping of a rune
  above U+007F.
\<close>

record case_tables =
  upper_of :: "int \<Rightarrow> int"
  lower_of :: "int \<Rightarrow> int"

definition unicode_ToUpper :: "case_tables \<Rightarrow> int \<Rightarrow> int" where
  "unicode_ToUpper T r =
     (if r \<le> 0x7F then (if 97 \<le> r \<and> r \<le> 122 then r - 32 else r) else upper_of T r)"

definition unicode_ToLower :: "case_tables \<Rightarrow> int \<Rightarrow> int" where
  "unicode_ToLower T r =
     (if r \<le> 0x7F then (if 65 \<le> r \<and> r \<le> 90 then r + 32 else r) else lower_of T r)"

text \<open>
  \<open>strings.Map(mapping, s)\<close>. Its first loop copies the runes the mapping leaves alone,
  except a byte that is not UTF-8 (read as U+FFFD of width 1); from the first rune it has
  to write on (\<open>map_rest\<close>) it writes the encoding of every mapped rune. A rune mapped to a
  negative value is dropped.
\<close>

fun map_rest :: "(int \<Rightarrow> int) \<Rightarrow> (int \<times> string) list \<Rightarrow> string" where
  "map_rest f [] = []"
| "map_rest f ((c, bs) # rs) = (if f c \<ge> 0 then EncodeRune (f c) else []) @ map_rest f rs"

fun map_scan :: "(int \<Rightarrow> int) \<Rightarrow> (int \<times> string) list \<Rightarrow> string" where
  "map_scan f [] = []"
| "map_scan f ((c, bs) # rs) =
     (if f c = c \<and> (c \<noteq> RuneError \<or> length bs \<noteq> 1) then bs @ map_scan f rs
      else (if f c \<ge> 0 then EncodeRune (f c) else []) @ map_rest f rs)"

definition strings_Map :: "(int \<Rightarrow> int) \<Rightarrow> string \<Rightarrow> string" where
  "strings_Map f s = map_scan f (utf8_runes s)"

definition is_ascii :: "string \<Rightarrow> bool" where
  "is_ascii s = list_all (\<lambda>c. of_char c < (0x80 :: int)) s"

definition upper_byte :: "char \<Rightarrow> char" where
  "upper_byte c =
     (if CHR ''a'' \<le> c \<and> c \<le> CHR ''z'' then char_of (of_char c - (32 :: nat)) else c)"

definition lower_byte :: "char \<Rightarrow> char" where
  "lower_byte c =
     (if CHR ''A'' \<le> c \<and> c \<le> CHR ''Z'' then char_of (of_char c + (32 :: nat)) else c)"

text \<open>
  \<open>strings.ToUpper\<close> and \<open>strings.ToLower\<close>: byte by byte on a string that is all ASCII,
  through \<open>strings.Map\<close> otherwise.
\<close>

definition strings_ToUpper :: "case_tables \<Rightarrow> string \<Rightarrow> string" where
  "strings_ToUpper T s = (if is_ascii s then map upper_byte s else strings_Map (unicode_ToUpper T) s)"

definition strings_ToLower :: "case_tables \<Rightarrow> string \<Rightarrow> string" where
  "strings_ToLower T s = (if is_ascii s then map lower_byte s else strings_Map (unicode_ToLower T) s)"

text \<open>The body of the title-case loop: \<open>word[:1]\<close> and \<open>word[1:]\<close> slice bytes.\<close>

definition title_word :: "case_tables \<Rightarrow> string \<Rightarrow> string" where
  "title_word T word =
     (if length word > 0 then strings_ToUpper T (take 1 word) @ strings_ToLower T (drop 1 word)
      else word)"

definition formatIconName :: "case_tables \<Rightarrow> string \<Rightarrow> string" where
  "formatIconName T iconName =
     (let name = strings_Replace iconName ''_'' '' '' (- 1);
          name = strings_Replace name ''-'' '' '' (- 1);
          words = strings_Fields name
      in strings_Join (map (title_word T) words) '' '')"

section \<open>The SVG icon builder\<close>

text \<open>
  The types \<open>SVGCluster\<close> and \<open>SVGIconData\<close> are declared outside the sources; the records
  have the fields the builder reads and writes.
\<close>

record SVGFileName =
  FileName :: string
  FileDescription :: string

record SVGClusterEntry =
  SourceFolder :: string
  FileNames :: "SVGFileName list"

record SVGIconData =
  ID :: string
  Name :: string
  Description :: string
  Path :: string
  Image :: string
  Category :: string

text \<open>
  What reading and parsing \<open>cluster_svg.json\<close> gives: an error of \<open>ioutil.ReadFile\<close>, an
  error of \<open>json.Unmarshal\<close>, or the cluster entries in the order in which the \<open>range\<close>
  loop visits them.
\<close>

datatype cluster_source = Unreadable | Unparseable | Parsed "SVGClusterEntry list"

datatype build_error = ReadFailed | ParseFailed | ContextDone

text \<open>The body of the inner loop: one document for one file name.\<close>

definition icon_name :: "SVGFileName \<Rightarrow> string" where
  "icon_name fileName = strings_TrimSuffix (strings_TrimPrefix (FileName fileName) ''_'') ''.svg''"

definition icon_path :: "SVGClusterEntry \<Rightarrow> SVGFileName \<Rightarrow> string" where
  "icon_path clusterEntry fileName =
     ''/freedevtools/svg_icons/'' @ SourceFolder clusterEntry @ ''/'' @ icon_name fileName @ ''/''"

definition icon_data ::
  "case_tables \<Rightarrow> (string \<Rightarrow> string) \<Rightarrow> SVGClusterEntry \<Rightarrow> SVGFileName \<Rightarrow> SVGIconData" where
  "icon_data T sanitizeID clusterEntry fileName =
     (let iconName = icon_name fileName;
          displayName = formatIconName T iconName;
          iconPath = icon_path clusterEntry fileName;
          iconID = generateIconIDFromPath sanitizeID iconPath;
          description =
            (if FileDescription fileName = '''' then ''SVG icon for '' @ displayName
             else FileDescription fileName)
      in \<lparr>ID = iconID, Name = displayName, Description = description, Path = iconPath,
          Image = ''/svg_icons/'' @ SourceFolder clusterEntry @ ''/'' @ FileName fileName,
          Category = ''svg_icons''\<rparr>)"

text \<open>
  The outer loop. \<open>done\<close> tells whether \<open>ctx.Done()\<close> is ready when the loop polls it at
  the start of its \<open>i\<close>-th round; \<open>acc\<close> is the slice \<open>svgIconsData\<close>.
\<close>

fun process_clusters ::
  "case_tables \<Rightarrow> (string \<Rightarrow> string) \<Rightarrow> (nat \<Rightarrow> bool) \<Rightarrow> nat \<Rightarrow> SVGClusterEntry list
     \<Rightarrow> SVGIconData list \<Rightarrow> build_error + SVGIconData list" where
  "process_clusters T sanitizeID done i [] acc = Inr acc"
| "process_clusters T sanitizeID done i (clusterEntry # rest) acc =
     (if done i then Inl ContextDone
      else process_clusters T sanitizeID done (Suc i) rest
             (acc @ map (icon_data T sanitizeID clusterEntry) (FileNames clusterEntry)))"

text \<open>
  \<open>generateSVGIconsData\<close>. \<open>sort.Slice\<close> is the library's sort, a parameter \<open>sort_Slice\<close> that
  takes the comparison and the slice; the comparison the builder passes is
  \<open>svgIconsData[i].ID < svgIconsData[j].ID\<close>, the order of the bytes of the two ids.
\<close>

definition generateSVGIconsData ::
  "case_tables \<Rightarrow> (string \<Rightarrow> string)
     \<Rightarrow> ((SVGIconData \<Rightarrow> SVGIconData \<Rightarrow> bool) \<Rightarrow> SVGIconData list \<Rightarrow> SVGIconData list)
     \<Rightarrow> (nat \<Rightarrow> bool) \<Rightarrow> cluster_source \<Rightarrow> build_error + SVGIconData list" where
  "generateSVGIconsData T sanitizeID sort_Slice done src =
     (case src of
        Unreadable \<Rightarrow> Inl ReadFailed
      | Unparseable \<Rightarrow> Inl ParseFailed
      | Parsed clusters \<Rightarrow>
          (case process_clusters T sanitizeID done 0 clusters [] of
             Inl err \<Rightarrow> Inl err
           | Inr svgIconsData \<Rightarrow>
               Inr (sort_Slice (\<lambda>data_i data_j. ID data_i < ID data_j) svgIconsData)))"

text \<open>
  What package \<open>sort\<close> asks of a comparison, a strict weak order: no element is less than
  itself; when \<open>a\<close> is less than \<open>b\<close> and \<open>b\<close> less than \<open>c\<close>, then \<open>a\<close> is less than \<open>c\<close>; and
  when \<open>a\<close> is not less than \<open>b\<close> and \<open>b\<close> not less than \<open>c\<close>, then \<open>a\<close> is not less than \<open>c\<close>.
\<close>

definition strict_weak_order :: "('a \<Rightarrow> 'a \<Rightarrow> bool) \<Rightarrow> bool" where
  "strict_weak_order lt =
     ((\<forall>a. \<not> lt a a) \<and> (\<forall>a b c. lt a b \<and> lt b c \<longrightarrow> lt a c)
      \<and> (\<forall>a b c. \<not> lt a b \<and> \<not> lt b c \<longrightarrow> \<not> lt a c))"

text \<open>
  What the documentation of \<open>sort.Slice\<close> promises: the result holds the same elements, and
  for a comparison that is a strict weak order no element is less than one before it.
  The sort is not stable: nothing is promised on the order of two elements neither of
  which is less than the other. It is a function of the comparison and the slice (it
  draws on no randomness).
\<close>

definition sort_Slice_contract :: "(('a \<Rightarrow> 'a \<Rightarrow> bool) \<Rightarrow> 'a list \<Rightarrow> 'a list) \<Rightarrow> bool" where
  "sort_Slice_contract sort_Slice =
     (\<forall>lt xs. mset (sort_Slice lt xs) = mset xs
        \<and> (strict_weak_order lt \<longrightarrow> sorted_wrt (\<lambda>a b. \<not> lt b a) (sort_Slice lt xs)))"

section \<open>The contract of the identifier generator, in the words of the specification\<close>

text \<open>
  The steps of the contract, each written from its sentence: strip the fixed prefix, trim a
  trailing separator, replace the remaining separators with hyphens. The last step before
  the category prefix, the replacement of every character outside \<open>[a-zA-Z0-9-_]\<close>, is
  \<^const>\<open>replace_invalid\<close>: a character is a rune.
\<close>

definition strip_base_prefix :: "string \<Rightarrow> string" where
  "strip_base_prefix path =
     (if has_prefix path base_path then drop (length base_path) path else path)"

definition trim_trailing_slash :: "string \<Rightarrow> string" where
  "trim_trailing_slash s = (if s \<noteq> [] \<and> last s = CHR ''/'' then butlast s else s)"

definition slashes_to_hyphens :: "string \<Rightarrow> string" where
  "slashes_to_hyphens s = map (\<lambda>c. if c = CHR ''/'' then CHR ''-'' else c) s"

definition stated_generateID :: "string \<Rightarrow> string" where
  "stated_generateID path =
     ''svg-icons-''
     @ replace_invalid (slashes_to_hyphens (trim_trailing_slash (strip_base_prefix path)))"

text \<open>
  \<open>strings.Index\<close>, the position of the first occurrence of a substring, and the deletion of
  that occurrence wherever it lies.
\<close>

fun strings_Index :: "string \<Rightarrow> string \<Rightarrow> nat option" where
  "strings_Index [] sub = (if sub = [] then Some 0 else None)"
| "strings_Index (c # cs) sub =
     (if has_prefix (c # cs) sub then Some 0 else map_option Suc (strings_Index cs sub))"

definition delete_first :: "string \<Rightarrow> string \<Rightarrow> string" where
  "delete_first sub s =
     (case strings_Index s sub of None \<Rightarrow> s | Some i \<Rightarrow> take i s @ drop (i + length sub) s)"

text \<open>A byte of the class \<open>[a-zA-Z0-9-_]\<close>.\<close>

definition id_byte :: "char \<Rightarrow> bool" where
  "id_byte c = id_rune (of_char c)"

section \<open>The search client\<close>

text \<open>
  \<open>SearchPage.tsx\<close>. A JavaScript string is a \<^typ>\<open>string\<close> (code units below 256), a number
  that counts hits or pages an \<^typ>\<open>int\<close>; \<open>Math.ceil\<close> of a quotient is the ceiling of the
  exact quotient. A search result is a value of any type \<open>'h\<close>. A field of the response
  that may be missing is an option, and the object \<open>facetDistribution.category\<close> is the
  list of its entries in the order of \<open>Object.values\<close>.
\<close>

record 'h SearchResponse =
  hits :: "'h list option"
  processingTimeMs :: "int option"
  estimatedTotalHits :: "int option"
  facetDistribution_category :: "(string \<times> int) list option"

record SearchBody =
  q :: string
  limit :: int
  offset :: int
  facets :: "string list"
  attributesToRetrieve :: "string list"
  filter' :: "string option"

definition apostrophe :: string where
  "apostrophe = [CHR 0x27]"

fun Array_join :: "string list \<Rightarrow> string \<Rightarrow> string" where
  "Array_join [] sep = []"
| "Array_join [x] sep = x"
| "Array_join (x # xs) sep = x @ sep @ Array_join xs sep"

text \<open>The callback of \<open>categories.map\<close> in \<open>searchUtilities\<close>.\<close>

definition filterCondition :: "string \<Rightarrow> string" where
  "filterCondition category =
     (if category = ''emoji'' then ''category = '' @ apostrophe @ ''emojis'' @ apostrophe
      else ''category = '' @ apostrophe @ category @ apostrophe)"

text \<open>The request \<open>searchUtilities\<close> builds before it calls \<open>fetch\<close>.\<close>

definition searchBody :: "string \<Rightarrow> string list \<Rightarrow> int \<Rightarrow> SearchBody" where
  "searchBody query categories page =
     (let body = \<lparr>q = query, limit = 100, offset = (page - 1) * 100, facets = [''category''],
                  attributesToRetrieve =
                    [''id'', ''name'', ''title'', ''description'', ''category'', ''path'', ''image'',
                     ''code''],
                  filter' = None\<rparr>
      in if length categories > 0
         then (let filterConditions = map filterCondition categories
               in if length filterConditions = 1
                  then body\<lparr>filter' := Some (filterConditions ! 0)\<rparr>
                  else body\<lparr>filter' := Some (Array_join filterConditions '' OR '')\<rparr>)
         else body)"

text \<open>
  What the network does with the request: \<open>fetch\<close> rejects; the response is not \<open>ok\<close> (with
  its \<open>statusText\<close>); \<open>response.json()\<close> rejects; or the body is JSON, \<open>null\<close> or a value
  whose fields are read.
\<close>

datatype 'h fetch_outcome =
    FetchRejected
  | NotOk string
  | NotJson
  | JsonNull
  | Json "'h SearchResponse"

datatype js_error = NetworkError | Error string | SyntaxError | TypeError

text \<open>The \<open>try\<close> block of \<open>searchUtilities\<close> after the request is built; \<open>None\<close> is \<open>null\<close>.\<close>

definition searchUtilities_try :: "'h fetch_outcome \<Rightarrow> js_error + 'h SearchResponse option" where
  "searchUtilities_try outcome =
     (case outcome of
        FetchRejected \<Rightarrow> Inl NetworkError
      | NotOk statusText \<Rightarrow> Inl (Error (''Search failed: '' @ statusText))
      | NotJson \<Rightarrow> Inl SyntaxError
      | JsonNull \<Rightarrow> Inr None
      | Json data \<Rightarrow> Inr (Some data))"

text \<open>The object the \<open>catch\<close> block of \<open>searchUtilities\<close> returns.\<close>

definition empty_response :: "'h SearchResponse" where
  "empty_response =
     \<lparr>hits = Some [], processingTimeMs = Some 0, estimatedTotalHits = Some 0,
      facetDistribution_category = None\<rparr>"

text \<open>\<open>searchUtilities\<close>: what the promise settles to, \<open>Inl\<close> when it rejects.\<close>

definition searchUtilities :: "'h fetch_outcome \<Rightarrow> js_error + 'h SearchResponse option" where
  "searchUtilities outcome =
     (case searchUtilities_try outcome of
        Inl error \<Rightarrow> Inr (Some empty_response)
      | Inr data \<Rightarrow> Inr data)"

subsection \<open>The state of the component\<close>

record SearchInfo =
  totalHits :: int
  processingTime :: int
  facetTotal :: int

text \<open>
  A fetch under way, with what its closure captured: the page-1 search of the debounce
  callback (query and categories), or a load-more (query, categories and \<open>nextPage\<close>).
\<close>

datatype request = Search string "string list" | More string "string list" int

text \<open>The request body such a fetch sends.\<close>

fun request_body :: "request \<Rightarrow> SearchBody" where
  "request_body (Search query categories) = searchBody query categories 1"
| "request_body (More query categories nextPage) = searchBody query categories nextPage"

text \<open>The \<open>useState\<close> cells.\<close>

record 'h cells =
  query :: string
  results :: "'h list"
  searchInfo :: "SearchInfo option"
  loading :: bool
  loadingMore :: bool
  activeCategory :: string
  selectedCategories :: "string list"
  currentPage :: int
  allResults :: "'h list"
  availableCategories :: "(string \<times> int) list"

text \<open>
  The component: the cells as the setters have left them; \<open>rendered\<close>, the values of the
  cells that the last render read, which are the values the constants and the closures
  of that render hold (the handlers and the effects read \<open>query\<close>, \<open>currentPage\<close>,
  \<open>loadingMore\<close>, \<open>hasMoreResults\<close>, \<open>selectedCategories\<close> there, not in the cells);
  \<open>selection_stored\<close>, whether \<open>setSelectedCategories\<close> has stored an array since that
  render (every call stores a new array, which the dependency lists of the effects see
  as a change); the debounce timer that is armed, with the query and the categories of
  the render that armed it; and the fetches under way.
\<close>

record 'h state = "'h cells" +
  rendered :: "'h cells"
  selection_stored :: bool
  timer :: "(string \<times> string list) option"
  inflight :: "request list"

text \<open>The state after the component is mounted: the first render and its effects.\<close>

definition initial :: "'h state" where
  "initial =
     \<lparr>query = [], results = [], searchInfo = None, loading = False, loadingMore = False,
      activeCategory = ''all'', selectedCategories = [], currentPage = 1, allResults = [],
      availableCategories = [],
      rendered =
        \<lparr>query = [], results = [], searchInfo = None, loading = False, loadingMore = False,
         activeCategory = ''all'', selectedCategories = [], currentPage = 1, allResults = [],
         availableCategories = []\<rparr>,
      selection_stored = False, timer = None, inflight = []\<rparr>"

text \<open>The values a render reads: the cells as they are when it runs.\<close>

definition snapshot :: "'h state \<Rightarrow> 'h cells" where
  "snapshot s =
     \<lparr>query = query s, results = results s, searchInfo = searchInfo s, loading = loading s,
      loadingMore = loadingMore s, activeCategory = activeCategory s,
      selectedCategories = selectedCategories s, currentPage = currentPage s,
      allResults = allResults s, availableCategories = availableCategories s\<rparr>"

text \<open>
  \<open>getEffectiveCategories\<close>, \<open>totalPages\<close> and \<open>hasMoreResults\<close>, as functions of the values
  they read.
\<close>

definition getEffectiveCategories :: "('h, 'z) cells_scheme \<Rightarrow> string list" where
  "getEffectiveCategories s =
     (if activeCategory s = ''all'' then []
      else if activeCategory s = ''multi'' then selectedCategories s
      else [activeCategory s])"

text \<open>\<open>!query.trim()\<close>: the query is white space only.\<close>

definition js_white :: "char \<Rightarrow> bool" where
  "js_white c = (c \<in> {CHR 0x09, CHR 0x0A, CHR 0x0B, CHR 0x0C, CHR 0x0D, CHR 0x20, CHR 0xA0})"

definition blank :: "string \<Rightarrow> bool" where
  "blank str = list_all js_white str"

text \<open>
  The effect with the debounce, run by a render. Its cleanup clears the timer of the run
  before; its body empties the results for a blank query and arms a new timer otherwise,
  whose callback holds the query and the categories of this render.
\<close>

definition search_effect :: "'h state \<Rightarrow> 'h state" where
  "search_effect s =
     (if blank (query (rendered s)) then s\<lparr>results := [], searchInfo := None, timer := None\<rparr>
      else s\<lparr>timer := Some (query (rendered s), getEffectiveCategories (rendered s))\<rparr>)"

text \<open>The effect on \<open>[activeCategory, selectedCategories]\<close>.\<close>

definition reset_effect :: "'h state \<Rightarrow> 'h state" where
  "reset_effect s = s\<lparr>currentPage := 1, results := [], allResults := [], searchInfo := None\<rparr>"

text \<open>
  A render after the first. It reads the cells, and then the effects run whose
  dependencies differ from those of the render before: the effect with the debounce on
  \<open>[query, activeCategory, selectedCategories]\<close>, then the effect on
  \<open>[activeCategory, selectedCategories]\<close>.
\<close>

definition render :: "'h state \<Rightarrow> 'h state" where
  "render s =
     (let query_changed = (query s \<noteq> query (rendered s));
          category_changed = (activeCategory s \<noteq> activeCategory (rendered s) \<or> selection_stored s);
          s = s\<lparr>rendered := snapshot s, selection_stored := False\<rparr>;
          s = (if query_changed \<or> category_changed then search_effect s else s)
      in if category_changed then reset_effect s else s)"

definition totalPages :: "('h, 'z) cells_scheme \<Rightarrow> int" where
  "totalPages s =
     (case searchInfo s of None \<Rightarrow> 1 | Some info \<Rightarrow> \<lceil>real_of_int (totalHits info) / 100\<rceil>)"

definition hasMoreResults :: "('h, 'z) cells_scheme \<Rightarrow> bool" where
  "hasMoreResults s = (currentPage s < totalPages s)"

subsection \<open>The handlers\<close>

text \<open>
  A handler is a closure of the last render: what it reads of the state, it reads in
  \<open>rendered\<close>; what it sets, it sets in the cells. Every category handler stores a new
  array in \<open>selectedCategories\<close>.
\<close>

definition handleCategoryClick :: "string \<Rightarrow> 'h state \<Rightarrow> 'h state" where
  "handleCategoryClick category s =
     (if category = ''all''
      then s\<lparr>activeCategory := ''all'', selectedCategories := [], selection_stored := True\<rparr>
      else s\<lparr>activeCategory := category, selectedCategories := [category],
             selection_stored := True\<rparr>)"

definition handleCategoryRightClick :: "string \<Rightarrow> 'h state \<Rightarrow> 'h state" where
  "handleCategoryRightClick category s =
     (if category = ''all''
      then s\<lparr>activeCategory := ''all'', selectedCategories := [], selection_stored := True\<rparr>
      else if category \<in> set (selectedCategories (rendered s))
      then (let newSelection = filter (\<lambda>cat. cat \<noteq> category) (selectedCategories (rendered s))
            in if length newSelection = 0
               then s\<lparr>selectedCategories := newSelection, selection_stored := True,
                      activeCategory := ''all''\<rparr>
               else s\<lparr>selectedCategories := newSelection, selection_stored := True,
                      activeCategory := ''multi''\<rparr>)
      else s\<lparr>selectedCategories := selectedCategories (rendered s) @ [category],
              selection_stored := True, activeCategory := ''multi''\<rparr>)"

definition clearResults :: "'h state \<Rightarrow> 'h state" where
  "clearResults s =
     s\<lparr>query := [], results := [], allResults := [], currentPage := 1,
       activeCategory := ''all'', selectedCategories := [], selection_stored := True\<rparr>"

definition setQuery :: "string \<Rightarrow> 'h state \<Rightarrow> 'h state" where
  "setQuery newQuery s = s\<lparr>query := newQuery\<rparr>"

text \<open>The callback of \<open>setTimeout\<close> up to its \<open>await\<close>.\<close>

definition timer_fires :: "'h state \<Rightarrow> 'h state" where
  "timer_fires s =
     (case timer s of
        None \<Rightarrow> s
      | Some (query', categories) \<Rightarrow>
          s\<lparr>loading := True, currentPage := 1, availableCategories := [], timer := None,
            inflight := inflight s @ [Search query' categories]\<rparr>)"

text \<open>The same callback from the \<open>await\<close> on, when \<open>searchUtilities\<close> has settled.\<close>

definition search_settled :: "js_error + 'h SearchResponse option \<Rightarrow> 'h state \<Rightarrow> 'h state" where
  "search_settled settled s =
     (case settled of
        Inr (Some searchResponse) \<Rightarrow>
          (let found = (case hits searchResponse of None \<Rightarrow> [] | Some hs \<Rightarrow> hs);
               facetTotal =
                 (case facetDistribution_category searchResponse of
                    None \<Rightarrow> 0
                  | Some category \<Rightarrow> foldl (\<lambda>sum count. sum + count) 0 (map snd category));
               s = (case facetDistribution_category searchResponse of
                      None \<Rightarrow> s
                    | Some category \<Rightarrow> s\<lparr>availableCategories := category\<rparr>)
           in s\<lparr>results := found, allResults := found,
                searchInfo := Some
                  \<lparr>totalHits =
                     (if facetTotal > 0 then facetTotal
                      else (case estimatedTotalHits searchResponse of None \<Rightarrow> 0 | Some n \<Rightarrow> n)),
                   processingTime =
                     (case processingTimeMs searchResponse of None \<Rightarrow> 0 | Some n \<Rightarrow> n),
                   facetTotal = facetTotal\<rparr>,
                loading := False\<rparr>)
      | _ \<Rightarrow> s\<lparr>results := [], allResults := [], searchInfo := None, loading := False\<rparr>)"

text \<open>
  \<open>loadMoreResults\<close> up to its \<open>await\<close>. The guard tests the constant \<open>hasMoreResults\<close> and
  the value of \<open>loadingMore\<close> of the render that made the handler, and the request is for
  the query, the categories and the page after \<open>currentPage\<close> of that render.
\<close>

definition loadMoreResults :: "'h state \<Rightarrow> 'h state" where
  "loadMoreResults s =
     (if \<not> hasMoreResults (rendered s) \<or> loadingMore (rendered s) then s
      else s\<lparr>loadingMore := True,
             inflight := inflight s @
               [More (query (rendered s)) (getEffectiveCategories (rendered s))
                  (currentPage (rendered s) + 1)]\<rparr>)"

text \<open>
  \<open>loadMoreResults\<close> from the \<open>await\<close> on. The two appends are updater functions, which read
  the cells.
\<close>

definition more_settled ::
  "int \<Rightarrow> js_error + 'h SearchResponse option \<Rightarrow> 'h state \<Rightarrow> 'h state" where
  "more_settled nextPage settled s =
     (case settled of
        Inr (Some searchResponse) \<Rightarrow>
          (let newResults = (case hits searchResponse of None \<Rightarrow> [] | Some hs \<Rightarrow> hs)
           in s\<lparr>allResults := allResults s @ newResults, results := results s @ newResults,
                currentPage := nextPage, loadingMore := False\<rparr>)
      | _ \<Rightarrow> s\<lparr>loadingMore := False\<rparr>)"

subsection \<open>The events\<close>

datatype 'h event =
    QueryChanged string
  | CategoryClick string
  | CategoryRightClick string
  | ClearResults
  | TimerFires
  | LoadMore
  | Settles nat "'h fetch_outcome"
  | Render

text \<open>
  One event. A handler or a callback runs to its end or to its \<open>await\<close>; \<open>Settles i outcome\<close>
  is the \<open>i\<close>-th fetch under way coming back with \<open>outcome\<close>; \<open>Render\<close> is the component
  rendered again, with the effects that follow. React renders after the setters have
  been called, so a run of the component has a \<open>Render\<close> after the events that set a
  cell, but not always before the next event.
\<close>

definition step :: "'h state \<Rightarrow> 'h event \<Rightarrow> 'h state" where
  "step s e =
     (case e of
        QueryChanged newQuery \<Rightarrow> setQuery newQuery s
      | CategoryClick category \<Rightarrow> handleCategoryClick category s
      | CategoryRightClick category \<Rightarrow> handleCategoryRightClick category s
      | ClearResults \<Rightarrow> clearResults s
      | TimerFires \<Rightarrow> timer_fires s
      | LoadMore \<Rightarrow> loadMoreResults s
      | Settles i outcome \<Rightarrow>
          (if i < length (inflight s)
           then (let s' = s\<lparr>inflight := take i (inflight s) @ drop (Suc i) (inflight s)\<rparr>
                 in case inflight s ! i of
                      Search query' categories \<Rightarrow> search_settled (searchUtilities outcome) s'
                    | More query' categories nextPage \<Rightarrow>
                        more_settled nextPage (searchUtilities outcome) s')
           else s)
      | Render \<Rightarrow> render s)"

definition run :: "'h state \<Rightarrow> 'h event list \<Rightarrow> 'h state" where
  "run s es = foldl step s es"

text \<open>
  The link \<open>View all results\<close>, which sets \<open>activeCategory\<close> alone, is rendered only by a
  render that reads a \<open>results\<close> that is not empty and an \<open>allResults\<close> that is: it is no
  event, because no run reaches such a render (lemma \<open>results_accumulated_run\<close> below).
\<close>

definition results_accumulated :: "('h, 'z) cells_scheme \<Rightarrow> bool" where
  "results_accumulated s = (results s = [] \<or> allResults s \<noteq> [])"


subsection \<open>The filter and the total, in the words of the specification\<close>

text \<open>
  The equality predicate on one category, with the literal the index stores for the tag
  \<open>emoji\<close>; the sum of the facet counts; the total the pagination compares with.
\<close>

definition category_literal :: "string \<Rightarrow> string" where
  "category_literal category = (if category = ''emoji'' then ''emojis'' else category)"

definition equality_predicate :: "string \<Rightarrow> string" where
  "equality_predicate category = ''category = '' @ apostrophe @ category_literal category @ apostrophe"

definition facet_sum :: "'h SearchResponse \<Rightarrow> int" where
  "facet_sum r = (case facetDistribution_category r of None \<Rightarrow> 0 | Some cs \<Rightarrow> sum_list (map snd cs))"

definition total_of :: "'h SearchResponse \<Rightarrow> int" where
  "total_of r =
     (if facet_sum r > 0 then facet_sum r
      else (case estimatedTotalHits r of None \<Rightarrow> 0 | Some n \<Rightarrow> n))"

text \<open>The hits of a response, as \<open>searchResponse.hits || []\<close> reads them.\<close>

definition hits_or_empty :: "'h SearchResponse \<Rightarrow> 'h list" where
  "hits_or_empty r = (case hits r of None \<Rightarrow> [] | Some hs \<Rightarrow> hs)"

text \<open>The outcomes for which the search service call has failed.\<close>

fun failed :: "'h fetch_outcome \<Rightarrow> bool" where
  "failed FetchRejected = True"
| "failed (NotOk statusText) = True"
| "failed NotJson = True"
| "failed JsonNull = False"
| "failed (Json data) = False"


text \<open>The invariant of the category selection.\<close>

definition category_invariant :: "'h state \<Rightarrow> bool" where
  "category_invariant s = ((selectedCategories s = []) = (activeCategory s = ''all''))"

subsection \<open>A search with 250 matching documents\<close>

text \<open>
  The service answers with pages of 100, 100 and 50 documents, numbered from 0, and a
  facet distribution whose counts add up to 250. The component is rendered after every
  event.
\<close>

definition page_response :: "nat list \<Rightarrow> nat SearchResponse" where
  "page_response hs =
     \<lparr>hits = Some hs, processingTimeMs = Some 1, estimatedTotalHits = Some 250,
      facetDistribution_category = Some [(''tools'', 200), (''tldr'', 50)]\<rparr>"

definition first_page_loaded :: "nat state" where
  "first_page_loaded =
     run initial [QueryChanged ''a'', Render, TimerFires, Render,
       Settles 0 (Json (page_response [0..<100])), Render]"

definition second_page_loaded :: "nat state" where
  "second_page_loaded =
     run first_page_loaded [LoadMore, Render, Settles 0 (Json (page_response [100..<200])), Render]"

definition third_page_loaded :: "nat state" where
  "third_page_loaded =
     run second_page_loaded [LoadMore, Render, Settles 0 (Json (page_response [200..<250])), Render]"


text \<open>The load-more handler of one render is triggered twice, and both fetches are answered.\<close>

definition double_trigger :: "nat event list" where
  "double_trigger =
     [LoadMore, LoadMore, Render, Settles 0 (Json (page_response [100..<200])), Render,
      Settles 0 (Json (page_response [100..<200])), Render]"

subsection \<open>Searches overtaken by a change of the query or of the category\<close>

text \<open>
  The user types \<open>A\<close>, the debounce timer fires and the search for \<open>A\<close> is under way; the
  user then types \<open>B\<close>. In \<open>stale_search\<close> the answer for \<open>A\<close> arrives next; in
  \<open>stale_search_last\<close> the search for \<open>B\<close> is sent and answered first; in \<open>stale_load_more\<close> a
  second page for \<open>A\<close> is under way when the query changes and arrives after the answer
  for \<open>B\<close>.
\<close>

definition stale_search :: "nat event list" where
  "stale_search =
     [QueryChanged ''A'', Render, TimerFires, Render, QueryChanged ''B'', Render,
      Settles 0 (Json (page_response [1, 2, 3])), Render]"

definition stale_search_last :: "nat event list" where
  "stale_search_last =
     [QueryChanged ''A'', Render, TimerFires, Render, QueryChanged ''B'', Render,
      TimerFires, Render, Settles 1 (Json (page_response [7, 8])), Render,
      Settles 0 (Json (page_response [1, 2, 3])), Render]"

definition stale_load_more :: "nat event list" where
  "stale_load_more =
     [QueryChanged ''A'', Render, TimerFires, Render,
      Settles 0 (Json (page_response [0..<100])), Render, LoadMore, Render,
      QueryChanged ''B'', Render, TimerFires, Render,
      Settles 1 (Json (page_response [7, 8])), Render,
      Settles 0 (Json (page_response [100..<103])), Render]"

definition query_typed :: "nat state" where
  "query_typed = run initial [QueryChanged ''A'', Render]"

definition changed_in_flight :: "nat state" where
  "changed_in_flight =
     run initial [QueryChanged ''A'', Render, TimerFires, Render, QueryChanged ''B'', Render]"

text \<open>
  The search for \<open>A\<close> in all categories is under way when the user clicks the category
  \<open>tools\<close>, and when the user right-clicks it.
\<close>

definition category_clicked_in_flight :: "nat state" where
  "category_clicked_in_flight =
     run initial [QueryChanged ''A'', Render, TimerFires, Render, CategoryClick ''tools'', Render]"

definition category_right_clicked_in_flight :: "nat state" where
  "category_right_clicked_in_flight =
     run initial [QueryChanged ''A'', Render, TimerFires, Render, CategoryRightClick ''tools'',
       Render]"

section \<open>One document for every record\<close>

text \<open>
  The documents of the records of a cluster list, in the order of the two loops, and the
  values closed evaluations take for the parameters: case tables without a pair beyond
  ASCII, a context that is never done, the identity for \<open>sanitizeID\<close> and for \<open>sort.Slice\<close>
  an insertion sort, which moves an element past those that are less and so keeps the
  order of two elements neither of which is less (on the slices of two and three
  documents evaluated below, \<open>sort.Slice\<close> runs the insertion sort of package \<open>sort\<close>, with
  this result).
\<close>

definition cluster_icons ::
  "case_tables \<Rightarrow> (string \<Rightarrow> string) \<Rightarrow> SVGClusterEntry list \<Rightarrow> SVGIconData list" where
  "cluster_icons T sanitizeID clusters =
     concat (map (\<lambda>clusterEntry. map (icon_data T sanitizeID clusterEntry) (FileNames clusterEntry))
       clusters)"

definition no_case_tables :: case_tables where
  "no_case_tables = \<lparr>upper_of = (\<lambda>r. r), lower_of = (\<lambda>r. r)\<rparr>"

definition never_done :: "nat \<Rightarrow> bool" where
  "never_done i = False"

fun insert_sorted :: "('a \<Rightarrow> 'a \<Rightarrow> bool) \<Rightarrow> 'a \<Rightarrow> 'a list \<Rightarrow> 'a list" where
  "insert_sorted lt x [] = [x]"
| "insert_sorted lt x (y # ys) =
     (if lt y x then y # insert_sorted lt x ys else x # y # ys)"

definition insertion_sort :: "('a \<Rightarrow> 'a \<Rightarrow> bool) \<Rightarrow> 'a list \<Rightarrow> 'a list" where
  "insertion_sort lt xs = foldr (insert_sorted lt) xs []"

text \<open>
  Three clusters: one with two file names for one icon name; one with a single icon; and
  two folders, \<open>arrow\<close> and \<open>arrow-left\<close>, whose icons \<open>left-up\<close> and \<open>up\<close> get the same
  identifier.
\<close>

definition colliding_cluster :: SVGClusterEntry where
  "colliding_cluster =
     \<lparr>SourceFolder = ''arrows'',
      FileNames = [\<lparr>FileName = ''_left.svg'', FileDescription = []\<rparr>,
                   \<lparr>FileName = ''left.svg'', FileDescription = ''An arrow''\<rparr>]\<rparr>"

definition other_cluster :: SVGClusterEntry where
  "other_cluster =
     \<lparr>SourceFolder = ''animals'',
      FileNames = [\<lparr>FileName = ''cat.svg'', FileDescription = []\<rparr>]\<rparr>"

definition arrow_cluster :: SVGClusterEntry where
  "arrow_cluster =
     \<lparr>SourceFolder = ''arrow'',
      FileNames = [\<lparr>FileName = ''left-up.svg'', FileDescription = []\<rparr>]\<rparr>"

definition arrow_left_cluster :: SVGClusterEntry where
  "arrow_left_cluster =
     \<lparr>SourceFolder = ''arrow-left'',
      FileNames = [\<lparr>FileName = ''up.svg'', FileDescription = []\<rparr>]\<rparr>"

section \<open>Display names of ASCII file names\<close>

text \<open>
  What \<open>formatIconName\<close> computes on a name that is all ASCII, byte by byte: the bytes that
  are white space, the fields of a string, the name with its underscores and hyphens
  replaced, and a word in title case. A name byte is an ASCII byte that is neither white
  space nor an underscore nor a hyphen.
\<close>

definition space_byte :: "char \<Rightarrow> bool" where
  "space_byte c = unicode_IsSpace (of_char c)"

fun byte_fields :: "string \<Rightarrow> string \<Rightarrow> string list" where
  "byte_fields [] cur = (if cur = [] then [] else [cur])"
| "byte_fields (c # cs) cur =
     (if space_byte c then (if cur = [] then [] else [cur]) @ byte_fields cs []
      else byte_fields cs (cur @ [c]))"

definition field :: "string \<Rightarrow> bool" where
  "field w = (w \<noteq> [] \<and> list_all (\<lambda>c. \<not> space_byte c) w)"

definition name_byte :: "char \<Rightarrow> bool" where
  "name_byte c = ((of_char c :: nat) < 128 \<and> \<not> space_byte c \<and> c \<noteq> CHR ''_'' \<and> c \<noteq> CHR ''-'')"

definition name_word :: "string \<Rightarrow> bool" where
  "name_word w = (w \<noteq> [] \<and> list_all name_byte w)"

definition titled :: "string \<Rightarrow> string" where
  "titled w = upper_byte (hd w) # map lower_byte (tl w)"

definition spaced :: "string \<Rightarrow> string" where
  "spaced s = map (\<lambda>c. if c = CHR ''-'' then CHR '' '' else c)
                (map (\<lambda>c. if c = CHR ''_'' then CHR '' '' else c) s)"

section \<open>Facts about the string functions\<close>

lemma replace_scan_done: "replace_scan old new k 0 s = drop k s"
proof (induction s arbitrary: k)
  case Nil
  show ?case by simp
next
  case (Cons c cs)
  show ?case by (cases k) (simp_all add: Cons.IH)
qed

lemma replace_scan_once:
  "old \<noteq> [] \<Longrightarrow> replace_scan old new 0 1 s =
     (case strings_Index s old of None \<Rightarrow> s
      | Some i \<Rightarrow> take i s @ new @ drop (i + length old) s)"
proof (induction s)
  case Nil
  then show ?case by simp
next
  case (Cons c cs)
  show ?case
  proof (cases "has_prefix (c # cs) old")
    case True
    with Cons.prems show ?thesis
      by (cases old) (simp_all add: replace_scan_done)
  next
    case False
    with Cons show ?thesis
      by (simp split: option.splits)
  qed
qed

lemma replace_scan_char:
  "n < 0 \<Longrightarrow> replace_scan [a] [b] 0 n s = map (\<lambda>c. if c = a then b else c) s"
  by (induction s arbitrary: n) (auto simp: has_prefix_def)

lemma TrimSuffix_char:
  "strings_TrimSuffix s [c] = (if s \<noteq> [] \<and> last s = c then butlast s else s)"
proof (cases s rule: rev_cases)
  case Nil
  then show ?thesis by (simp add: strings_TrimSuffix_def has_suffix_def)
next
  case (snoc ys y)
  then show ?thesis by (auto simp: strings_TrimSuffix_def has_suffix_def)
qed

lemma Replace_once: "old \<noteq> [] \<Longrightarrow> strings_Replace s old [] 1 = delete_first old s"
  by (simp add: strings_Replace_def delete_first_def replace_scan_once split: option.splits)

lemma Replace_base_path: "strings_Replace path base_path [] 1 = delete_first base_path path"
  by (rule Replace_once) (simp add: base_path_def)

lemma Index_prefix: "has_prefix s sub \<Longrightarrow> strings_Index s sub = Some 0"
  by (cases s) (auto simp: has_prefix_def)

subsection \<open>Runes below U+0080 are single bytes\<close>

lemma utf8_first_Some:
  assumes "utf8_first b = Some (sz, lo, hi)"
  shows "0x80 \<le> lo \<and> hi \<le> 0xBF \<and>
         (sz = 2 \<and> 0xC2 \<le> b \<and> b \<le> 0xDF
          \<or> sz = 3 \<and> 0xE0 \<le> b \<and> b \<le> 0xEF \<and> (b = 0xE0 \<longrightarrow> lo = 0xA0)
          \<or> sz = 4 \<and> 0xF0 \<le> b \<and> b \<le> 0xF4 \<and> (b = 0xF0 \<longrightarrow> lo = 0x90))"
  using assms unfolding utf8_first_def by (auto split: if_splits)

lemma mod_shift: "(m::int) * k \<le> b \<Longrightarrow> b < m * k + m \<Longrightarrow> b mod m = b - m * k"
proof -
  assume a: "m * k \<le> b" "b < m * k + m"
  have "b = (b - m * k) + k * m" by (simp add: mult.commute)
  then have "b mod m = (b - m * k) mod m" by (metis mod_mult_self1)
  with a show ?thesis by simp
qed

lemma two_byte_rune: "0xC2 \<le> b \<Longrightarrow> b \<le> 0xDF \<Longrightarrow> 0 \<le> x \<Longrightarrow> 128 \<le> (b mod 32) * 64 + (x::int)"
  using mod_shift[of 32 6 b] by simp

lemma three_byte_rune:
  "0xE0 \<le> b \<Longrightarrow> b \<le> 0xEF \<Longrightarrow> (b = 0xE0 \<longrightarrow> 0xA0 \<le> b1) \<Longrightarrow> b1 \<le> 0xBF
     \<Longrightarrow> 0 \<le> x \<Longrightarrow> 128 \<le> (b mod 16) * 4096 + (b1 mod 64) * 64 + (x::int)"
  using mod_shift[of 16 14 b] mod_shift[of 64 2 b1] by (cases "b = 0xE0") auto

lemma four_byte_rune:
  "0xF0 \<le> b \<Longrightarrow> b \<le> 0xF4 \<Longrightarrow> (b = 0xF0 \<longrightarrow> 0x90 \<le> b1) \<Longrightarrow> b1 \<le> 0xBF
     \<Longrightarrow> 0 \<le> x \<Longrightarrow> 128 \<le> (b mod 8) * 262144 + (b1 mod 64) * 4096 + (x::int)"
  using mod_shift[of 8 30 b] mod_shift[of 64 2 b1] by (cases "b = 0xF0") auto

lemma DecodeRune_multi:
  assumes f: "utf8_first b0 = Some (sz, lo, hi)"
  shows "128 \<le> fst (DecodeRune (b0 # bs))"
proof -
  note r = utf8_first_Some[OF f]
  consider (two) "sz = 2" "0xC2 \<le> b0" "b0 \<le> 0xDF"
    | (three) "sz = 3" "0xE0 \<le> b0" "b0 \<le> 0xEF" "b0 = 0xE0 \<longrightarrow> lo = 0xA0"
    | (four) "sz = 4" "0xF0 \<le> b0" "b0 \<le> 0xF4" "b0 = 0xF0 \<longrightarrow> lo = 0x90"
    using r by blast
  then show ?thesis
  proof cases
    case two
    then show ?thesis
      using f two_byte_rune[of b0 "bs ! 0 mod 64"] by (simp add: RuneError_def)
  next
    case three
    have "lo \<le> bs ! 0 \<Longrightarrow> bs ! 0 \<le> hi \<Longrightarrow>
          128 \<le> (b0 mod 16) * 4096 + (bs ! 0 mod 64) * 64 + bs ! 1 mod 64"
      using three r by (intro three_byte_rune) auto
    with three f show ?thesis
      by (simp add: RuneError_def not_less)
  next
    case four
    have "lo \<le> bs ! 0 \<Longrightarrow> bs ! 0 \<le> hi \<Longrightarrow>
          128 \<le> (b0 mod 8) * 262144 + (bs ! 0 mod 64) * 4096
                  + ((bs ! 1 mod 64) * 64 + bs ! 2 mod 64)"
      using four r by (intro four_byte_rune) auto
    with four f show ?thesis
      by (simp add: RuneError_def not_less add.assoc)
  qed
qed

lemma DecodeRune_ascii:
  assumes "fst (DecodeRune (b0 # bs)) < 128"
  shows "DecodeRune (b0 # bs) = (b0, 1)"
proof (cases "utf8_first b0")
  case None
  with assms show ?thesis by (simp add: RuneError_def split: if_splits)
next
  case (Some p)
  obtain sz lo hi where "p = (sz, lo, hi)" by (cases p) auto
  with Some DecodeRune_multi[of b0 sz lo hi bs] assms show ?thesis by simp
qed

lemma Replace_slashes: "strings_Replace s ''/'' ''-'' (- 1) = slashes_to_hyphens s"
  by (simp add: strings_Replace_def replace_scan_char slashes_to_hyphens_def)

lemma TrimSuffix_slash: "strings_TrimSuffix s ''/'' = trim_trailing_slash s"
  by (simp add: TrimSuffix_char trim_trailing_slash_def)

lemma id_rune_small: "id_rune r \<Longrightarrow> r < 128"
  by (auto simp: id_rune_def)

lemma DecodeRuneInString_ascii:
  "fst (DecodeRuneInString (c # cs)) < 128 \<Longrightarrow> DecodeRuneInString (c # cs) = (of_char c, 1)"
  using DecodeRune_ascii[of "of_char c" "map of_char (take 3 cs)"]
  by (simp add: DecodeRuneInString_def)

lemma utf8_runes_Cons:
  "utf8_runes (c # cs) =
     (fst (DecodeRuneInString (c # cs)), c # take (snd (DecodeRuneInString (c # cs)) - 1) cs)
     # utf8_runes (drop (snd (DecodeRuneInString (c # cs)) - 1) cs)"
  by (simp split: prod.splits)

lemma replace_invalid_id: "list_all id_byte (replace_invalid s)"
proof (induction s rule: utf8_runes.induct)
  case 1
  show ?case by (simp add: replace_invalid_def)
next
  case (2 c cs)
  let ?d = "DecodeRuneInString (c # cs)"
  have step: "replace_invalid (c # cs) =
      (if id_rune (fst ?d) then c # take (snd ?d - 1) cs else ''_'')
      @ replace_invalid (drop (snd ?d - 1) cs)"
    by (simp add: replace_invalid_def utf8_runes_Cons del: utf8_runes.simps)
  have head: "list_all id_byte (if id_rune (fst ?d) then c # take (snd ?d - 1) cs else ''_'')"
  proof (cases "id_rune (fst ?d)")
    case True
    have "fst ?d < 128"
      using id_rune_small[OF True] .
    then have d: "?d = (of_char c, 1)"
      by (rule DecodeRuneInString_ascii)
    from True show ?thesis unfolding d by (simp add: id_byte_def)
  next
    case False
    have "id_byte (CHR ''_'')" by (simp add: id_byte_def id_rune_def)
    with False show ?thesis by simp
  qed
  have rest: "list_all id_byte (replace_invalid (drop (snd ?d - 1) cs))"
    using 2[of "fst ?d" "snd ?d"] by simp
  from step head rest show ?case by simp
qed

section \<open>The identifier generator is a composition of string steps\<close>

text \<open>
  Claim C3, as the code has it. For every path and every helper \<open>sanitizeID\<close>, the generator
  never fails and its result is the category prefix \<open>svg-icons-\<close> followed by \<open>sanitizeID\<close> of:
  the path with the first occurrence of \<open>/freedevtools/svg_icons/\<close> deleted wherever it lies,
  one trailing \<open>/\<close> trimmed, every remaining \<open>/\<close> replaced by \<open>-\<close> and every rune outside
  \<open>[a-zA-Z0-9-_]\<close> replaced by \<open>_\<close>. Deleting the first occurrence is stripping the prefix
  when the path starts with it and when it does not occur. When the helper leaves
  strings over \<open>[a-zA-Z0-9-_]\<close> alone, it drops out of the result. The empty path gives the
  prefix followed by \<open>sanitizeID\<close> of the empty string.
\<close>

theorem generateIconIDFromPath_composition:
  "generateIconIDFromPath sanitizeID path =
     ''svg-icons-''
     @ sanitizeID (replace_invalid (slashes_to_hyphens (trim_trailing_slash
         (delete_first base_path path))))
   \<and> (has_prefix path base_path \<longrightarrow> delete_first base_path path = strip_base_prefix path)
   \<and> (strings_Index path base_path = None \<longrightarrow> delete_first base_path path = strip_base_prefix path)
   \<and> ((\<forall>s. list_all id_byte s \<longrightarrow> sanitizeID s = s) \<longrightarrow>
        generateIconIDFromPath sanitizeID path =
          ''svg-icons-''
          @ replace_invalid (slashes_to_hyphens (trim_trailing_slash
              (delete_first base_path path))))
   \<and> generateIconIDFromPath sanitizeID [] = ''svg-icons-'' @ sanitizeID []"
proof -
  have gen: "generateIconIDFromPath sanitizeID p =
     ''svg-icons-''
     @ sanitizeID (replace_invalid (slashes_to_hyphens (trim_trailing_slash
         (delete_first base_path p))))" for p
    by (simp add: generateIconIDFromPath_def Replace_base_path TrimSuffix_slash Replace_slashes)
  have pre: "has_prefix path base_path \<Longrightarrow> delete_first base_path path = strip_base_prefix path"
    by (simp add: delete_first_def strip_base_prefix_def Index_prefix)
  have none: "strings_Index path base_path = None \<Longrightarrow>
      delete_first base_path path = strip_base_prefix path"
    using Index_prefix[of path base_path]
    by (auto simp add: delete_first_def strip_base_prefix_def)
  have san: "(\<forall>s. list_all id_byte s \<longrightarrow> sanitizeID s = s) \<Longrightarrow>
      generateIconIDFromPath sanitizeID path =
          ''svg-icons-''
          @ replace_invalid (slashes_to_hyphens (trim_trailing_slash
              (delete_first base_path path)))"
    using replace_invalid_id by (simp add: gen)
  have empty: "generateIconIDFromPath sanitizeID [] = ''svg-icons-'' @ sanitizeID []"
    by (simp add: gen delete_first_def base_path_def trim_trailing_slash_def
        slashes_to_hyphens_def replace_invalid_def)
  from gen pre none san empty show ?thesis by blast
qed

text \<open>
  The theorem at the path of the specification's example and at a path without the
  prefix, with the identity as helper.
\<close>

theorem generateIconIDFromPath_composition_witness:
  "has_prefix ''/freedevtools/svg_icons/arrows/_left-arrow.svg/'' base_path
   \<and> generateIconIDFromPath id ''/freedevtools/svg_icons/arrows/_left-arrow.svg/''
       = ''svg-icons-arrows-_left-arrow_svg''
   \<and> strings_Index ''arrows/up'' base_path = None
   \<and> generateIconIDFromPath id ''arrows/up'' = ''svg-icons-arrows-up''"
proof -
  have a: "has_prefix ''/freedevtools/svg_icons/arrows/_left-arrow.svg/'' base_path"
    by code_simp
  have b: "strings_Index ''arrows/up'' base_path = None"
    by code_simp
  have c: "\<forall>s. list_all id_byte s \<longrightarrow> id s = s"
    by simp
  have d: "''svg-icons-'' @ replace_invalid (slashes_to_hyphens (trim_trailing_slash
              (strip_base_prefix ''/freedevtools/svg_icons/arrows/_left-arrow.svg/'')))
            = ''svg-icons-arrows-_left-arrow_svg''"
    by code_simp
  have e: "''svg-icons-'' @ replace_invalid (slashes_to_hyphens (trim_trailing_slash
              (strip_base_prefix ''arrows/up''))) = ''svg-icons-arrows-up''"
    by code_simp
  from a b c d e
    generateIconIDFromPath_composition[of id "''/freedevtools/svg_icons/arrows/_left-arrow.svg/''"]
    generateIconIDFromPath_composition[of id "''arrows/up''"]
  show ?thesis by simp
qed

text \<open>
  Claim C3 as stated fails: a path that holds the prefix string after its first byte loses
  it all the same, where stripping a prefix would keep it. The helper is the identity here;
  by the theorem above any helper that leaves \<open>xy\<close> alone gives the same identifier.
\<close>

theorem generateIconIDFromPath_inner_prefix:
  "generateIconIDFromPath id ''x/freedevtools/svg_icons/y'' = ''svg-icons-xy''
   \<and> stated_generateID ''x/freedevtools/svg_icons/y'' = ''svg-icons-x-freedevtools-svg_icons-y''"
  by code_simp

section \<open>The filter of a search request\<close>

lemma filterCondition_eq: "filterCondition c = equality_predicate c"
  by (simp add: filterCondition_def equality_predicate_def category_literal_def)

lemma Array_join_concat:
  "Array_join (x # xs) sep = x @ concat (map (\<lambda>y. sep @ y) xs)"
  by (induction xs arbitrary: x) simp_all

text \<open>
  Claim C5. The request carries no filter when no category is selected; for one category
  the filter is the equality predicate on it; for more it is the predicates of the
  categories in the order of the selection, joined by \<open>OR\<close>; and the tag \<open>emoji\<close> is
  written as the literal \<open>emojis\<close>, alone or among others.
\<close>

theorem searchBody_filter:
  "filter' (searchBody qtext categories page) =
     (case categories of
        [] \<Rightarrow> None
      | c # cs \<Rightarrow>
          Some (equality_predicate c @ concat (map (\<lambda>c'. '' OR '' @ equality_predicate c') cs)))
   \<and> filter' (searchBody qtext [c] page) = Some (equality_predicate c)
   \<and> equality_predicate ''emoji'' = ''category = '' @ apostrophe @ ''emojis'' @ apostrophe
   \<and> filter' (searchBody qtext [''tools'', ''emoji'', ''tldr''] page) =
       Some (''category = '' @ apostrophe @ ''tools'' @ apostrophe @ '' OR ''
             @ ''category = '' @ apostrophe @ ''emojis'' @ apostrophe @ '' OR ''
             @ ''category = '' @ apostrophe @ ''tldr'' @ apostrophe)"
proof -
  have gen: "filter' (searchBody qtext cats page) =
     (case cats of
        [] \<Rightarrow> None
      | c # cs \<Rightarrow>
          Some (equality_predicate c @ concat (map (\<lambda>c'. '' OR '' @ equality_predicate c') cs)))"
    for cats
  proof (cases cats)
    case Nil
    then show ?thesis by (simp add: searchBody_def)
  next
    case (Cons c cs)
    have "Array_join (map filterCondition (c # cs)) '' OR '' =
        equality_predicate c @ concat (map (\<lambda>c'. '' OR '' @ equality_predicate c') cs)"
      by (simp add: Array_join_concat filterCondition_eq comp_def del: Array_join.simps)
    with Cons show ?thesis
      by (cases cs) (simp_all add: searchBody_def Let_def filterCondition_eq)
  qed
  have one: "filter' (searchBody qtext [c] page) = Some (equality_predicate c)"
    by (simp add: gen)
  have emoji: "equality_predicate ''emoji'' = ''category = '' @ apostrophe @ ''emojis'' @ apostrophe"
    by (simp add: equality_predicate_def category_literal_def)
  have ex: "filter' (searchBody qtext [''tools'', ''emoji'', ''tldr''] page) =
       Some (''category = '' @ apostrophe @ ''tools'' @ apostrophe @ '' OR ''
             @ ''category = '' @ apostrophe @ ''emojis'' @ apostrophe @ '' OR ''
             @ ''category = '' @ apostrophe @ ''tldr'' @ apostrophe)"
    by (simp add: gen equality_predicate_def category_literal_def)
  from gen one emoji ex show ?thesis by blast
qed

section \<open>The cells and the values of the last render\<close>

text \<open>Setting a cell leaves \<open>rendered\<close> alone, and a render leaves the cells alone.\<close>

lemma rendered_cell_update [simp]:
  "rendered ((s :: 'h state)\<lparr>query := query'\<rparr>) = rendered s"
  "rendered ((s :: 'h state)\<lparr>results := results'\<rparr>) = rendered s"
  "rendered ((s :: 'h state)\<lparr>searchInfo := searchInfo'\<rparr>) = rendered s"
  "rendered ((s :: 'h state)\<lparr>loading := loading'\<rparr>) = rendered s"
  "rendered ((s :: 'h state)\<lparr>loadingMore := loadingMore'\<rparr>) = rendered s"
  "rendered ((s :: 'h state)\<lparr>activeCategory := activeCategory'\<rparr>) = rendered s"
  "rendered ((s :: 'h state)\<lparr>selectedCategories := selectedCategories'\<rparr>) = rendered s"
  "rendered ((s :: 'h state)\<lparr>currentPage := currentPage'\<rparr>) = rendered s"
  "rendered ((s :: 'h state)\<lparr>allResults := allResults'\<rparr>) = rendered s"
  "rendered ((s :: 'h state)\<lparr>availableCategories := availableCategories'\<rparr>) = rendered s"
  "rendered ((s :: 'h state)\<lparr>selection_stored := selection_stored'\<rparr>) = rendered s"
  "rendered ((s :: 'h state)\<lparr>timer := timer'\<rparr>) = rendered s"
  "rendered ((s :: 'h state)\<lparr>inflight := inflight'\<rparr>) = rendered s"
  by (case_tac [!] s) simp_all

lemma cell_rendered_update [simp]:
  "query ((s :: 'h state)\<lparr>rendered := seen\<rparr>) = query s"
  "results ((s :: 'h state)\<lparr>rendered := seen\<rparr>) = results s"
  "searchInfo ((s :: 'h state)\<lparr>rendered := seen\<rparr>) = searchInfo s"
  "loading ((s :: 'h state)\<lparr>rendered := seen\<rparr>) = loading s"
  "loadingMore ((s :: 'h state)\<lparr>rendered := seen\<rparr>) = loadingMore s"
  "activeCategory ((s :: 'h state)\<lparr>rendered := seen\<rparr>) = activeCategory s"
  "selectedCategories ((s :: 'h state)\<lparr>rendered := seen\<rparr>) = selectedCategories s"
  "currentPage ((s :: 'h state)\<lparr>rendered := seen\<rparr>) = currentPage s"
  "allResults ((s :: 'h state)\<lparr>rendered := seen\<rparr>) = allResults s"
  "availableCategories ((s :: 'h state)\<lparr>rendered := seen\<rparr>) = availableCategories s"
  "selection_stored ((s :: 'h state)\<lparr>rendered := seen\<rparr>) = selection_stored s"
  "timer ((s :: 'h state)\<lparr>rendered := seen\<rparr>) = timer s"
  "inflight ((s :: 'h state)\<lparr>rendered := seen\<rparr>) = inflight s"
  "rendered ((s :: 'h state)\<lparr>rendered := seen\<rparr>) = seen"
  by (case_tac [!] s) simp_all

section \<open>Pagination\<close>

lemma ceil_100: "(p < \<lceil>real_of_int t / 100\<rceil>) = (p * 100 < t)"
proof -
  have "(p < \<lceil>real_of_int t / 100\<rceil>) = (real_of_int p < real_of_int t / 100)"
    by (simp add: less_ceiling_iff)
  also have "\<dots> = (real_of_int p * 100 < real_of_int t)"
    by (simp add: pos_less_divide_eq)
  also have "\<dots> = (p * 100 < t)"
    by (metis of_int_less_iff of_int_mult of_int_numeral)
  finally show ?thesis .
qed

lemma foldl_sum: "foldl (\<lambda>sum count. sum + count) a xs = a + sum_list (xs :: int list)"
  by (induction xs arbitrary: a) simp_all

text \<open>
  Claim C6. In a state with search information, \<open>hasMoreResults\<close> is
  \<open>currentPage * 100 < totalHits\<close>; the page-1 response sets \<open>totalHits\<close> to the sum of the
  facet counts when that sum is positive and to \<open>estimatedTotalHits\<close> (or 0) otherwise; loading
  more leaves it alone.
\<close>

theorem hasMoreResults_formula:
  "(searchInfo s = Some info \<longrightarrow> hasMoreResults s = (currentPage s * 100 < totalHits info))
   \<and> map_option totalHits (searchInfo (search_settled (Inr (Some r)) s)) = Some (total_of r)
   \<and> searchInfo (more_settled nextPage settled s) = searchInfo s
   \<and> searchInfo (loadMoreResults s) = searchInfo s"
proof -
  have a: "searchInfo s = Some info \<Longrightarrow> hasMoreResults s = (currentPage s * 100 < totalHits info)"
    by (simp add: hasMoreResults_def totalPages_def ceil_100)
  have b: "map_option totalHits (searchInfo (search_settled (Inr (Some r)) s)) = Some (total_of r)"
    by (simp add: search_settled_def Let_def total_of_def facet_sum_def foldl_sum
        split: option.splits)
  have c: "searchInfo (more_settled nextPage settled s) = searchInfo s"
    by (simp add: more_settled_def Let_def split: sum.splits option.splits)
  have d: "searchInfo (loadMoreResults s) = searchInfo s"
    by (simp add: loadMoreResults_def)
  from a b c d show ?thesis by blast
qed


text \<open>
  With 250 matching documents there is more to load after pages 1 and 2 and no more after
  page 3, when the 250 documents are accumulated in order.
\<close>

theorem hasMoreResults_250:
  "hasMoreResults first_page_loaded \<and> hasMoreResults second_page_loaded
   \<and> \<not> hasMoreResults third_page_loaded
   \<and> allResults third_page_loaded = [0..<250] \<and> currentPage third_page_loaded = 3"
proof -
  have i1: "searchInfo first_page_loaded = Some \<lparr>totalHits = 250, processingTime = 1, facetTotal = 250\<rparr>"
    by code_simp
  have i2: "searchInfo second_page_loaded = Some \<lparr>totalHits = 250, processingTime = 1, facetTotal = 250\<rparr>"
    by code_simp
  have i3: "searchInfo third_page_loaded = Some \<lparr>totalHits = 250, processingTime = 1, facetTotal = 250\<rparr>"
    by code_simp
  have p1: "currentPage first_page_loaded = 1" by code_simp
  have p2: "currentPage second_page_loaded = 2" by code_simp
  have p3: "currentPage third_page_loaded = 3" by code_simp
  have all: "allResults third_page_loaded = [0..<250]" by code_simp
  from hasMoreResults_formula[of first_page_loaded] i1 p1
  have h1: "hasMoreResults first_page_loaded" by simp
  from hasMoreResults_formula[of second_page_loaded] i2 p2
  have h2: "hasMoreResults second_page_loaded" by simp
  from hasMoreResults_formula[of third_page_loaded] i3 p3
  have h3: "\<not> hasMoreResults third_page_loaded" by simp
  from h1 h2 h3 all p3 show ?thesis by simp
qed

section \<open>The category selection\<close>

lemma category_invariant_handlers:
  "category_invariant (handleCategoryClick c s)"
  "category_invariant (handleCategoryRightClick c s)"
  "category_invariant (clearResults s)"
proof -
  show "category_invariant (handleCategoryClick c s)"
    by (simp add: category_invariant_def handleCategoryClick_def)
  show "category_invariant (clearResults s)"
    by (simp add: category_invariant_def clearResults_def)
  show "category_invariant (handleCategoryRightClick c s)"
  proof (cases "c = ''all''")
    case True
    then show ?thesis by (simp add: category_invariant_def handleCategoryRightClick_def)
  next
    case False
    show ?thesis
    proof (cases "c \<in> set (selectedCategories (rendered s))")
      case True
      show ?thesis
      proof (cases "filter (\<lambda>cat. cat \<noteq> c) (selectedCategories (rendered s)) = []")
        case True
        with \<open>c \<noteq> ''all''\<close> \<open>c \<in> set (selectedCategories (rendered s))\<close> show ?thesis
          by (simp add: category_invariant_def handleCategoryRightClick_def)
      next
        case False
        with \<open>c \<noteq> ''all''\<close> \<open>c \<in> set (selectedCategories (rendered s))\<close> show ?thesis
          by (simp add: category_invariant_def handleCategoryRightClick_def Let_def)
      qed
    next
      case False
      with \<open>c \<noteq> ''all''\<close> show ?thesis
        by (simp add: category_invariant_def handleCategoryRightClick_def)
    qed
  qed
qed

lemma category_fields_effects [simp]:
  "activeCategory (search_effect s) = activeCategory s"
  "selectedCategories (search_effect s) = selectedCategories s"
  "activeCategory (reset_effect s) = activeCategory s"
  "selectedCategories (reset_effect s) = selectedCategories s"
  "activeCategory (render s) = activeCategory s"
  "selectedCategories (render s) = selectedCategories s"
  by (simp_all add: search_effect_def reset_effect_def render_def Let_def)

lemma category_fields_settled [simp]:
  "activeCategory (search_settled x s) = activeCategory s"
  "selectedCategories (search_settled x s) = selectedCategories s"
  "activeCategory (more_settled n x s) = activeCategory s"
  "selectedCategories (more_settled n x s) = selectedCategories s"
  by (simp_all add: search_settled_def more_settled_def Let_def
      split: sum.splits option.splits)

lemma category_fields_other [simp]:
  "activeCategory (setQuery q' s) = activeCategory s"
  "selectedCategories (setQuery q' s) = selectedCategories s"
  "activeCategory (timer_fires s) = activeCategory s"
  "selectedCategories (timer_fires s) = selectedCategories s"
  "activeCategory (loadMoreResults s) = activeCategory s"
  "selectedCategories (loadMoreResults s) = selectedCategories s"
  by (simp_all add: setQuery_def timer_fires_def loadMoreResults_def split: option.splits)

lemma category_invariant_step:
  assumes "category_invariant s"
  shows "category_invariant (step s e)"
proof (cases e)
  case (CategoryClick c)
  with category_invariant_handlers(1)[of c s] show ?thesis
    by (simp add: step_def category_invariant_def)
next
  case (CategoryRightClick c)
  with category_invariant_handlers(2)[of c s] show ?thesis
    by (simp add: step_def category_invariant_def)
next
  case ClearResults
  with category_invariant_handlers(3)[of s] show ?thesis
    by (simp add: step_def category_invariant_def)
next
  case (Settles i outcome)
  with assms show ?thesis
    by (simp add: step_def category_invariant_def Let_def split: request.splits)
qed (use assms in \<open>simp_all add: step_def category_invariant_def\<close>)

lemma category_invariant_run:
  "category_invariant s \<Longrightarrow> category_invariant (run s es)"
  unfolding run_def by (induction es arbitrary: s) (simp_all add: category_invariant_step)

text \<open>
  Claim C10. After any sequence of events from the initial state (clicks and right clicks
  on categories and clearing among them), \<open>selectedCategories\<close> is empty exactly when
  \<open>activeCategory\<close> is \<open>all\<close>, and \<open>getEffectiveCategories\<close> returns the empty list exactly
  then.
\<close>

theorem selectedCategories_empty_iff_all:
  "(selectedCategories (run initial es) = []) = (activeCategory (run initial es) = ''all'')
   \<and> (getEffectiveCategories (run initial es) = []) = (activeCategory (run initial es) = ''all'')"
proof -
  have "category_invariant (initial :: 'a state)"
    by (simp add: category_invariant_def initial_def)
  then have inv: "category_invariant (run initial es)"
    by (rule category_invariant_run)
  then show ?thesis
    by (auto simp: category_invariant_def getEffectiveCategories_def)
qed

section \<open>The search service call\<close>

lemma searchUtilities_failed: "failed outcome \<Longrightarrow> searchUtilities outcome = Inr (Some empty_response)"
  by (cases outcome) (simp_all add: searchUtilities_def searchUtilities_try_def)

lemma searchUtilities_Json: "searchUtilities (Json r) = Inr (Some r)"
  by (simp add: searchUtilities_def searchUtilities_try_def)


lemma step_Settles_Search:
  "i < length (inflight s) \<Longrightarrow> inflight s ! i = Search q' cats \<Longrightarrow>
   step s (Settles i outcome) =
     search_settled (searchUtilities outcome)
       (s\<lparr>inflight := take i (inflight s) @ drop (Suc i) (inflight s)\<rparr>)"
  by (simp add: step_def)

lemma step_Settles_More:
  "i < length (inflight s) \<Longrightarrow> inflight s ! i = More q' cats nextPage \<Longrightarrow>
   step s (Settles i outcome) =
     more_settled nextPage (searchUtilities outcome)
       (s\<lparr>inflight := take i (inflight s) @ drop (Suc i) (inflight s)\<rparr>)"
  by (simp add: step_def)

section \<open>Loading more\<close>

text \<open>
  The guard of \<open>loadMoreResults\<close> tests the values of the last render: when that render
  read that a page is being loaded, or that there is no more to load, the trigger
  changes nothing. A trigger that passes the guard sets \<open>loadingMore\<close>, so a trigger after
  the next render changes nothing.
\<close>

lemma loadMore_guard:
  "loadingMore (rendered s) \<or> \<not> hasMoreResults (rendered s) \<Longrightarrow> step s LoadMore = s"
  by (auto simp: step_def loadMoreResults_def)

lemma loadMore_sets_loadingMore:
  "\<not> loadingMore (rendered s) \<Longrightarrow> hasMoreResults (rendered s) \<Longrightarrow> loadingMore (step s LoadMore)"
  by (simp add: step_def loadMoreResults_def)

lemma loadMore_after_render:
  assumes "loadingMore s"
  shows "step (step s Render) LoadMore = step s Render"
proof -
  have "loadingMore (rendered (step s Render)) = loadingMore s"
    by (simp add: step_def render_def Let_def search_effect_def reset_effect_def snapshot_def)
  with assms show ?thesis by (simp add: loadMore_guard)
qed

text \<open>
  Two triggers of the handler of one render both pass the guard: \<open>setLoadingMore(true)\<close> of
  the first sets the cell, and the second tests the value the render read. Two fetches
  of the same page are under way, and both answers are appended.
\<close>

lemma loadMore_twice_in_one_render:
  assumes "\<not> loadingMore (rendered s)" and "hasMoreResults (rendered s)"
  shows "inflight (step (step s LoadMore) LoadMore) =
           inflight s @
             [More (query (rendered s)) (getEffectiveCategories (rendered s))
                (currentPage (rendered s) + 1),
              More (query (rendered s)) (getEffectiveCategories (rendered s))
                (currentPage (rendered s) + 1)]"
  using assms by (simp add: step_def loadMoreResults_def)

lemma double_trigger_appends_twice:
  "inflight (run first_page_loaded [LoadMore, LoadMore]) = [More ''a'' [] 2, More ''a'' [] 2]
   \<and> allResults (run first_page_loaded double_trigger) = [0..<100] @ [100..<200] @ [100..<200]
   \<and> currentPage (run first_page_loaded double_trigger) = 2"
  by code_simp

lemma results_accumulated_step:
  assumes "results_accumulated s"
  shows "results_accumulated (step s e)"
proof (cases e)
  case (Settles i outcome)
  show ?thesis
  proof (cases "i < length (inflight s)")
    case True
    with assms Settles show ?thesis
      by (cases "inflight s ! i"; cases "searchUtilities outcome")
         (auto simp: step_def results_accumulated_def search_settled_def more_settled_def Let_def
            split: option.splits)
  next
    case False
    with assms Settles show ?thesis by (simp add: step_def)
  qed
qed (use assms in \<open>auto simp: step_def results_accumulated_def setQuery_def search_effect_def
      reset_effect_def timer_fires_def loadMoreResults_def render_def Let_def
      handleCategoryClick_def handleCategoryRightClick_def clearResults_def
      split: option.splits\<close>)

lemma rendered_step:
  "rendered (step s e) = (if e = Render then snapshot s else rendered s)"
proof (cases e)
  case (Settles i outcome)
  then show ?thesis
    by (cases "inflight s ! i"; cases "searchUtilities outcome")
       (auto simp: step_def search_settled_def more_settled_def Let_def split: option.splits)
qed (auto simp: step_def setQuery_def search_effect_def reset_effect_def timer_fires_def
      loadMoreResults_def render_def Let_def handleCategoryClick_def
      handleCategoryRightClick_def clearResults_def split: option.splits)

lemma results_accumulated_run:
  "results_accumulated (run initial es) \<and> results_accumulated (rendered (run initial es))"
proof -
  have "results_accumulated s \<and> results_accumulated (rendered s) \<Longrightarrow>
        results_accumulated (run s es) \<and> results_accumulated (rendered (run s es))"
    for s :: "'a state"
    unfolding run_def
  proof (induction es arbitrary: s)
    case Nil
    then show ?case by simp
  next
    case (Cons e es)
    from Cons.prems have "results_accumulated (step s e)"
      by (simp add: results_accumulated_step)
    moreover from Cons.prems have "results_accumulated (rendered (step s e))"
      by (simp add: rendered_step results_accumulated_def snapshot_def)
    ultimately show ?case using Cons.IH[of "step s e"] by simp
  qed
  then show ?thesis by (simp add: results_accumulated_def initial_def)
qed

text \<open>
  The \<open>catch\<close> block of \<open>loadMoreResults\<close> is reached only when the body of the answer is
  \<open>null\<close>, where reading \<open>searchResponse.hits\<close> throws: the counter stays.
\<close>

lemma load_more_null_body:
  assumes "i < length (inflight s)" and "inflight s ! i = More q' cats nextPage"
  shows "currentPage (step s (Settles i JsonNull)) = currentPage s
       \<and> allResults (step s (Settles i JsonNull)) = allResults s
       \<and> loadingMore (step s (Settles i JsonNull)) = False"
  using assms
  by (simp add: step_Settles_More searchUtilities_def searchUtilities_try_def more_settled_def)

text \<open>
  Claim C8 says the page counter is incremented only on a successful fetch. When the
  fetch of a further page fails, \<open>searchUtilities\<close> swallows the error and settles with an
  empty response, so \<open>loadMoreResults\<close> takes the fetch for a success: nothing is appended
  and the counter moves on to the page that was never loaded.
\<close>

theorem load_more_failed_fetch:
  assumes "i < length (inflight s)" and "inflight s ! i = More q' cats nextPage"
    and "failed outcome"
  shows "currentPage (step s (Settles i outcome)) = nextPage
       \<and> allResults (step s (Settles i outcome)) = allResults s
       \<and> results (step s (Settles i outcome)) = results s
       \<and> loadingMore (step s (Settles i outcome)) = False"
  using assms
  by (simp add: step_Settles_More searchUtilities_failed more_settled_def empty_response_def)

text \<open>
  After the first page of the 250 documents, a failed load-more leaves 100 documents and
  page counter 2; the next load-more fetches page 3, and documents 100 to 199 are never
  shown.
\<close>

theorem load_more_failed_fetch_witness:
  "currentPage first_page_loaded = 1
   \<and> inflight (run first_page_loaded [LoadMore, Render]) ! 0 = More ''a'' [] 2
   \<and> currentPage (run first_page_loaded [LoadMore, Render, Settles 0 FetchRejected]) = 2
   \<and> allResults (run first_page_loaded [LoadMore, Render, Settles 0 FetchRejected]) = [0..<100]
   \<and> inflight (run first_page_loaded
        [LoadMore, Render, Settles 0 FetchRejected, Render, LoadMore, Render]) ! 0
       = More ''a'' [] 3
   \<and> allResults (run first_page_loaded
        [LoadMore, Render, Settles 0 FetchRejected, Render, LoadMore, Render,
         Settles 0 (Json (page_response [200..<250])), Render])
       = [0..<100] @ [200..<250]"
proof -
  let ?s = "run first_page_loaded [LoadMore, Render]"
  have a: "0 < length (inflight ?s)" by code_simp
  have b: "inflight ?s ! 0 = More ''a'' [] 2" by code_simp
  have c: "failed (FetchRejected :: nat fetch_outcome)" by simp
  have d: "allResults ?s = [0..<100]" by code_simp
  have e: "currentPage first_page_loaded = 1" by code_simp
  have f: "allResults (run first_page_loaded
        [LoadMore, Render, Settles 0 FetchRejected, Render, LoadMore, Render,
         Settles 0 (Json (page_response [200..<250])), Render])
       = [0..<100] @ [200..<250]" by code_simp
  have g: "inflight (run first_page_loaded
        [LoadMore, Render, Settles 0 FetchRejected, Render, LoadMore, Render]) ! 0
       = More ''a'' [] 3" by code_simp
  have r: "run first_page_loaded [LoadMore, Render, Settles 0 FetchRejected]
      = step ?s (Settles 0 FetchRejected)"
    by (simp add: run_def)
  from load_more_failed_fetch[OF a b c] d
  have p: "currentPage (step ?s (Settles 0 FetchRejected)) = 2"
    and q: "allResults (step ?s (Settles 0 FetchRejected)) = [0..<100]"
    by simp_all
  have p': "currentPage (run first_page_loaded [LoadMore, Render, Settles 0 FetchRejected]) = 2"
    unfolding r by (rule p)
  have q': "allResults (run first_page_loaded [LoadMore, Render, Settles 0 FetchRejected]) = [0..<100]"
    unfolding r by (rule q)
  from e b p' q' g f show ?thesis by (intro conjI)
qed

section \<open>A failed search\<close>




section \<open>Responses that arrive late\<close>

lemma inflight_handlers:
  "inflight (step s (QueryChanged newQuery)) = inflight s"
  "inflight (step s (CategoryClick category)) = inflight s"
  "inflight (step s (CategoryRightClick category)) = inflight s"
  "inflight (step s Render) = inflight s"
  by (simp_all add: step_def setQuery_def handleCategoryClick_def handleCategoryRightClick_def
      render_def search_effect_def reset_effect_def Let_def)

lemma timer_render:
  "timer (step s Render) =
     (if query s \<noteq> query (rendered s) \<or> activeCategory s \<noteq> activeCategory (rendered s)
         \<or> selection_stored s
      then (if blank (query s) then None else Some (query s, getEffectiveCategories s))
      else timer s)"
  by (simp add: step_def render_def search_effect_def reset_effect_def Let_def snapshot_def
      getEffectiveCategories_def)

lemma timer_query_changed:
  "newQuery \<noteq> query (rendered s) \<Longrightarrow>
     timer (run s [QueryChanged newQuery, Render]) =
       (if blank newQuery then None else Some (newQuery, getEffectiveCategories s))"
  by (simp add: run_def timer_render) (simp add: step_def setQuery_def getEffectiveCategories_def)

lemma timer_category_click:
  "timer (run s [CategoryClick category, Render]) =
     (if blank (query s) then None
      else Some (query s, if category = ''all'' then [] else [category]))"
  by (simp add: run_def timer_render)
     (simp add: step_def handleCategoryClick_def getEffectiveCategories_def)

lemma timer_category_right_click:
  "timer (run s [CategoryRightClick category, Render]) =
     (if blank (query s) then None
      else Some (query s,
        if category = ''all'' then []
        else if category \<in> set (selectedCategories (rendered s))
        then filter (\<lambda>cat. cat \<noteq> category) (selectedCategories (rendered s))
        else selectedCategories (rendered s) @ [category]))"
  by (simp add: run_def timer_render)
     (simp add: step_def handleCategoryRightClick_def getEffectiveCategories_def Let_def)

text \<open>
  Claim C2, as the code has it. A response is applied when it arrives, whatever the query
  and the categories are by then: the answer to a page-1 search replaces the results and
  the accumulated results by its hits, the answer to a load-more is appended to them and
  sets the page counter. A change of the query, a click and a right click on a category
  leave the fetches under way alone, and so does the render that follows; that render
  cancels only the timer that has not fired: it arms a timer for the new query or the
  new categories (no timer when the query is blank). A render with the query and the
  categories of the render before keeps the timer.
\<close>

theorem late_response_applied:
  "(i < length (inflight s) \<and> inflight s ! i = Search q' cats \<longrightarrow>
      results (step s (Settles i (Json r))) = hits_or_empty r
      \<and> allResults (step s (Settles i (Json r))) = hits_or_empty r
      \<and> query (step s (Settles i (Json r))) = query s
      \<and> getEffectiveCategories (step s (Settles i (Json r))) = getEffectiveCategories s)
   \<and> (i < length (inflight s) \<and> inflight s ! i = More q' cats nextPage \<longrightarrow>
      results (step s (Settles i (Json r))) = results s @ hits_or_empty r
      \<and> allResults (step s (Settles i (Json r))) = allResults s @ hits_or_empty r
      \<and> currentPage (step s (Settles i (Json r))) = nextPage
      \<and> query (step s (Settles i (Json r))) = query s
      \<and> getEffectiveCategories (step s (Settles i (Json r))) = getEffectiveCategories s)
   \<and> inflight (step s (QueryChanged newQuery)) = inflight s
   \<and> inflight (step s (CategoryClick category)) = inflight s
   \<and> inflight (step s (CategoryRightClick category)) = inflight s
   \<and> inflight (step s Render) = inflight s
   \<and> (newQuery \<noteq> query (rendered s) \<longrightarrow>
      timer (run s [QueryChanged newQuery, Render]) =
        (if blank newQuery then None else Some (newQuery, getEffectiveCategories s)))
   \<and> timer (run s [CategoryClick category, Render]) =
        (if blank (query s) then None
         else Some (query s, if category = ''all'' then [] else [category]))
   \<and> timer (run s [CategoryRightClick category, Render]) =
        (if blank (query s) then None
         else Some (query s,
           if category = ''all'' then []
           else if category \<in> set (selectedCategories (rendered s))
           then filter (\<lambda>cat. cat \<noteq> category) (selectedCategories (rendered s))
           else selectedCategories (rendered s) @ [category]))
   \<and> (query s = query (rendered s) \<and> activeCategory s = activeCategory (rendered s)
        \<and> \<not> selection_stored s \<longrightarrow>
      timer (step s Render) = timer s)"
proof -
  have a: "i < length (inflight s) \<Longrightarrow> inflight s ! i = Search q' cats \<Longrightarrow>
      results (step s (Settles i (Json r))) = hits_or_empty r
      \<and> allResults (step s (Settles i (Json r))) = hits_or_empty r
      \<and> query (step s (Settles i (Json r))) = query s
      \<and> getEffectiveCategories (step s (Settles i (Json r))) = getEffectiveCategories s"
    by (simp add: step_Settles_Search searchUtilities_Json search_settled_def Let_def
        hits_or_empty_def getEffectiveCategories_def split: option.splits)
  have b: "i < length (inflight s) \<Longrightarrow> inflight s ! i = More q' cats nextPage \<Longrightarrow>
      results (step s (Settles i (Json r))) = results s @ hits_or_empty r
      \<and> allResults (step s (Settles i (Json r))) = allResults s @ hits_or_empty r
      \<and> currentPage (step s (Settles i (Json r))) = nextPage
      \<and> query (step s (Settles i (Json r))) = query s
      \<and> getEffectiveCategories (step s (Settles i (Json r))) = getEffectiveCategories s"
    by (simp add: step_Settles_More searchUtilities_Json more_settled_def Let_def
        hits_or_empty_def getEffectiveCategories_def)
  have k: "query s = query (rendered s) \<and> activeCategory s = activeCategory (rendered s)
        \<and> \<not> selection_stored s \<Longrightarrow> timer (step s Render) = timer s"
    by (simp add: timer_render)
  from a b k inflight_handlers[of s] timer_query_changed[of newQuery s]
    timer_category_click[of s category] timer_category_right_click[of s category]
  show ?thesis by blast
qed

text \<open>
  Claim C2 as stated fails: the answer for \<open>A\<close> is written into the results of query \<open>B\<close>,
  also when it arrives after the answer for \<open>B\<close>, and a late page of \<open>A\<close> is appended to
  the results for \<open>B\<close>.
\<close>

theorem stale_response_written:
  "query (run initial stale_search) = ''B''
   \<and> results (run initial stale_search) = [1, 2, 3]
   \<and> allResults (run initial stale_search) = [1, 2, 3]
   \<and> query (run initial stale_search_last) = ''B''
   \<and> results (run initial stale_search_last) = [1, 2, 3]
   \<and> allResults (run initial stale_search_last) = [1, 2, 3]
   \<and> query (run initial stale_load_more) = ''B''
   \<and> allResults (run initial stale_load_more) = [7, 8, 100, 101, 102]"
  by code_simp

text \<open>
  The theorem on the runs in which the query changes, and in which a category is clicked
  and right-clicked, while the search for \<open>A\<close> in all categories is under way: its answer
  is written into the results, and the timer is armed for the new query or category.
\<close>

theorem late_response_applied_witness:
  "inflight changed_in_flight ! 0 = Search ''A'' []
   \<and> query changed_in_flight = ''B''
   \<and> results (step changed_in_flight (Settles 0 (Json (page_response [1, 2, 3])))) = [1, 2, 3]
   \<and> inflight category_clicked_in_flight ! 0 = Search ''A'' []
   \<and> getEffectiveCategories category_clicked_in_flight = [''tools'']
   \<and> results (step category_clicked_in_flight (Settles 0 (Json (page_response [1, 2, 3]))))
       = [1, 2, 3]
   \<and> inflight category_right_clicked_in_flight ! 0 = Search ''A'' []
   \<and> getEffectiveCategories category_right_clicked_in_flight = [''tools'']
   \<and> results (step category_right_clicked_in_flight (Settles 0 (Json (page_response [1, 2, 3]))))
       = [1, 2, 3]
   \<and> timer query_typed = Some (''A'', [])
   \<and> timer (run query_typed [QueryChanged ''B'', Render]) = Some (''B'', [])
   \<and> timer (run query_typed [CategoryClick ''tools'', Render]) = Some (''A'', [''tools''])
   \<and> timer (run query_typed [CategoryRightClick ''tools'', Render]) = Some (''A'', [''tools''])"
proof -
  let ?s = "changed_in_flight"
  let ?c = "category_clicked_in_flight"
  let ?r = "category_right_clicked_in_flight"
  let ?t = "query_typed"
  have a: "0 < length (inflight ?s)" "0 < length (inflight ?c)" "0 < length (inflight ?r)"
    by code_simp+
  have b: "inflight ?s ! 0 = Search ''A'' []" by code_simp
  have bc: "inflight ?c ! 0 = Search ''A'' []" by code_simp
  have br: "inflight ?r ! 0 = Search ''A'' []" by code_simp
  have c: "query ?s = ''B''" by code_simp
  have cc: "getEffectiveCategories ?c = [''tools'']" by code_simp
  have cr: "getEffectiveCategories ?r = [''tools'']" by code_simp
  have d: "hits_or_empty (page_response [1, 2, 3]) = [1, 2, 3]" by code_simp
  have e: "''B'' \<noteq> query (rendered ?t)" by code_simp
  have f: "\<not> blank ''B''" by code_simp
  have g: "getEffectiveCategories ?t = []" by code_simp
  have h: "timer ?t = Some (''A'', [])" by code_simp
  have q: "query ?t = ''A''" by code_simp
  have n: "\<not> blank ''A''" by code_simp
  have m: "''tools'' \<noteq> ''all''" by simp
  have l: "selectedCategories (rendered ?t) = []" by code_simp
  from late_response_applied[of 0 ?s "''A''" "[]" "page_response [1, 2, 3]"] a b d
  have r1: "results (step ?s (Settles 0 (Json (page_response [1, 2, 3])))) = [1, 2, 3]"
    by simp
  from late_response_applied[of 0 ?c "''A''" "[]" "page_response [1, 2, 3]"] a bc d
  have r2: "results (step ?c (Settles 0 (Json (page_response [1, 2, 3])))) = [1, 2, 3]"
    by simp
  from late_response_applied[of 0 ?r "''A''" "[]" "page_response [1, 2, 3]"] a br d
  have r3: "results (step ?r (Settles 0 (Json (page_response [1, 2, 3])))) = [1, 2, 3]"
    by simp
  from late_response_applied[of _ ?t _ _ _ _ "''B''"] e f g
  have t1: "timer (run ?t [QueryChanged ''B'', Render]) = Some (''B'', [])"
    by simp
  from late_response_applied[of _ ?t _ _ _ _ _ "''tools''"] q n m
  have t2: "timer (run ?t [CategoryClick ''tools'', Render]) = Some (''A'', [''tools''])"
    by simp
  from late_response_applied[of _ ?t _ _ _ _ _ "''tools''"] q n m l
  have t3: "timer (run ?t [CategoryRightClick ''tools'', Render]) = Some (''A'', [''tools''])"
    by simp
  from b c r1 bc cc r2 br cr r3 h t1 t2 t3 show ?thesis by (intro conjI)
qed

section \<open>The documents of a build\<close>

lemma process_clusters_Inr:
  "process_clusters T san done i cl acc = Inr out \<Longrightarrow> out = acc @ cluster_icons T san cl"
proof (induction cl arbitrary: i acc)
  case Nil
  then show ?case by (simp add: cluster_icons_def)
next
  case (Cons e es)
  from Cons.prems have "process_clusters T san done (Suc i) es
      (acc @ map (icon_data T san e) (FileNames e)) = Inr out"
    by (simp split: if_splits)
  from Cons.IH[OF this] show ?case by (simp add: cluster_icons_def)
qed

lemma process_clusters_Inl:
  "process_clusters T san done i cl acc = Inl err \<Longrightarrow>
     err = ContextDone \<and> (\<exists>k<length cl. done (i + k))"
proof (induction cl arbitrary: i acc)
  case Nil
  then show ?case by simp
next
  case (Cons e es)
  show ?case
  proof (cases "done i")
    case True
    with Cons.prems show ?thesis by auto
  next
    case False
    with Cons.prems have "process_clusters T san done (Suc i) es
        (acc @ map (icon_data T san e) (FileNames e)) = Inl err" by simp
    from Cons.IH[OF this] obtain k where "err = ContextDone" "k < length es" "done (Suc i + k)"
      by blast
    then have "Suc k < length (e # es)" "done (i + Suc k)" by simp_all
    with \<open>err = ContextDone\<close> show ?thesis by blast
  qed
qed

lemma process_clusters_not_done:
  "(\<forall>k<length cl. \<not> done (i + k)) \<Longrightarrow>
     process_clusters T san done i cl acc = Inr (acc @ cluster_icons T san cl)"
proof (induction cl arbitrary: i acc)
  case Nil
  then show ?case by (simp add: cluster_icons_def)
next
  case (Cons e es)
  from Cons.prems have "\<not> done i" by force
  moreover from Cons.prems have "\<forall>k<length es. \<not> done (Suc i + k)" by force
  ultimately show ?case using Cons.IH[of "Suc i"] by (simp add: cluster_icons_def)
qed

lemma mset_cluster_icons:
  "mset cl1 = mset cl2 \<Longrightarrow> mset (cluster_icons T san cl1) = mset (cluster_icons T san cl2)"
proof -
  have "mset (cluster_icons T san cl) =
      (\<Sum>e\<in>#mset cl. mset (map (icon_data T san e) (FileNames e)))" for cl
    by (induction cl) (simp_all add: cluster_icons_def)
  then show "mset cl1 = mset cl2 \<Longrightarrow> mset (cluster_icons T san cl1) = mset (cluster_icons T san cl2)"
    by simp
qed

lemma sorted_same_elements:
  fixes xs ys :: "('a :: linorder) list"
  assumes "mset xs = mset ys" "sorted xs" "sorted ys"
  shows "xs = ys"
  using assms by (metis properties_for_sort)

lemma generate_Parsed_Inr:
  "generateSVGIconsData T san srt done (Parsed cl) = Inr out \<Longrightarrow>
     out = srt (\<lambda>data_i data_j. ID data_i < ID data_j) (cluster_icons T san cl)"
  by (auto simp: generateSVGIconsData_def split: sum.splits dest: process_clusters_Inr)

lemma generate_not_done:
  "(\<forall>i<length cl. \<not> done i) \<Longrightarrow>
     generateSVGIconsData T san srt done (Parsed cl)
       = Inr (srt (\<lambda>data_i data_j. ID data_i < ID data_j) (cluster_icons T san cl))"
  using process_clusters_not_done[of cl "done" 0 T san "[]"]
  by (simp add: generateSVGIconsData_def)

lemma generate_never_done:
  "generateSVGIconsData T san srt never_done (Parsed cl)
     = Inr (srt (\<lambda>data_i data_j. ID data_i < ID data_j) (cluster_icons T san cl))"
  by (rule generate_not_done) (simp add: never_done_def)

text \<open>The comparison the builder passes to \<open>sort.Slice\<close> is a strict weak order.\<close>

lemma ID_less_strict_weak_order:
  "strict_weak_order (\<lambda>data_i data_j. ID data_i < ID data_j)"
  unfolding strict_weak_order_def by auto

lemma sort_Slice_keeps:
  "sort_Slice_contract srt \<Longrightarrow> mset (srt lt xs) = mset xs"
  unfolding sort_Slice_contract_def by blast

lemma sort_Slice_by_ID:
  assumes "sort_Slice_contract srt"
  shows "sorted (map ID (srt (\<lambda>data_i data_j. ID data_i < ID data_j) xs))"
proof -
  from assms ID_less_strict_weak_order
  have "sorted_wrt (\<lambda>a b. \<not> ID b < ID a) (srt (\<lambda>data_i data_j. ID data_i < ID data_j) xs)"
    unfolding sort_Slice_contract_def by blast
  then show ?thesis by (simp add: sorted_map not_less)
qed

text \<open>The insertion sort meets the contract of \<open>sort.Slice\<close>.\<close>

lemma mset_insert_sorted: "mset (insert_sorted lt x ys) = add_mset x (mset ys)"
  by (induction ys) simp_all

lemma mset_insertion_sort: "mset (insertion_sort lt xs) = mset xs"
  by (induction xs) (simp_all add: insertion_sort_def mset_insert_sorted)

lemma set_insert_sorted: "set (insert_sorted lt x ys) = insert x (set ys)"
  by (induction ys) auto

lemma sorted_insert_sorted:
  assumes "strict_weak_order lt" and "sorted_wrt (\<lambda>a b. \<not> lt b a) ys"
  shows "sorted_wrt (\<lambda>a b. \<not> lt b a) (insert_sorted lt x ys)"
  using assms(2)
proof (induction ys)
  case Nil
  show ?case by simp
next
  case (Cons y ys)
  from assms(1) have irr: "\<And>a. \<not> lt a a"
    and tr: "\<And>a b c. lt a b \<Longrightarrow> lt b c \<Longrightarrow> lt a c"
    and ntr: "\<And>a b c. \<not> lt a b \<Longrightarrow> \<not> lt b c \<Longrightarrow> \<not> lt a c"
    unfolding strict_weak_order_def by blast+
  show ?case
  proof (cases "lt y x")
    case True
    then have "\<not> lt x y" using irr tr by blast
    with True Cons show ?thesis by (auto simp: set_insert_sorted)
  next
    case False
    with Cons.prems ntr show ?thesis by auto
  qed
qed

lemma sorted_insertion_sort:
  "strict_weak_order lt \<Longrightarrow> sorted_wrt (\<lambda>a b. \<not> lt b a) (insertion_sort lt xs)"
  by (induction xs) (simp_all add: insertion_sort_def sorted_insert_sorted)

lemma insertion_sort_contract: "sort_Slice_contract insertion_sort"
  by (simp add: sort_Slice_contract_def mset_insertion_sort sorted_insertion_sort)

text \<open>
  Claim C7, as the code has it. The comparison handed to \<open>sort.Slice\<close> reads the id only, and
  \<open>sort.Slice\<close> is not stable. Two runs that succeed on the same cluster entries return the
  same documents as a multiset and the same sequence of ids, in ascending order, whatever
  the order in which the \<open>range\<close> loop visits the entries and whenever the context is
  polled. They return the same sequence of documents when they visit the entries in the
  same order, and also when the ids are pairwise distinct.
\<close>

theorem generateSVGIconsData_deterministic:
  assumes "sort_Slice_contract sort_Slice"
    and "generateSVGIconsData T sanitizeID sort_Slice done1 (Parsed clusters1) = Inr out1"
    and "generateSVGIconsData T sanitizeID sort_Slice done2 (Parsed clusters2) = Inr out2"
    and "mset clusters1 = mset clusters2"
  shows "sorted (map ID out1) \<and> map ID out1 = map ID out2 \<and> mset out1 = mset out2
       \<and> (clusters1 = clusters2 \<longrightarrow> out1 = out2)
       \<and> (distinct (map ID out1) \<longrightarrow> out1 = out2)"
proof -
  let ?by_ID = "\<lambda>data_i data_j. ID data_i < ID data_j"
  let ?d1 = "cluster_icons T sanitizeID clusters1" and ?d2 = "cluster_icons T sanitizeID clusters2"
  have o1: "out1 = sort_Slice ?by_ID ?d1" and o2: "out2 = sort_Slice ?by_ID ?d2"
    using assms(2,3) by (auto dest: generate_Parsed_Inr)
  have m: "mset out1 = mset out2"
    using assms(4) mset_cluster_icons[of clusters1 clusters2 T sanitizeID]
    by (simp add: o1 o2 sort_Slice_keeps[OF assms(1)])
  have s1: "sorted (map ID out1)" and s2: "sorted (map ID out2)"
    unfolding o1 o2 by (rule sort_Slice_by_ID[OF assms(1)])+
  have "mset (map ID out1) = mset (map ID out2)"
    using m by (metis mset_map)
  then have ids: "map ID out1 = map ID out2"
    using s1 s2 by (rule sorted_same_elements)
  have same: "clusters1 = clusters2 \<Longrightarrow> out1 = out2"
    by (simp add: o1 o2)
  have dist: "out1 = out2" if "distinct (map ID out1)"
  proof -
    from that have "inj_on ID (set out1)" by (simp add: distinct_map)
    moreover from m have "set out2 = set out1" by (metis set_mset_mset)
    ultimately have "inj_on ID (set out1 \<union> set out2)" by simp
    with ids show ?thesis by (simp add: inj_on_map_eq_map)
  qed
  from s1 ids m same dist show ?thesis by blast
qed

text \<open>
  The theorem on two runs that visit two clusters in opposite orders: the ids come out in
  the same ascending sequence, the id of the two file names of one icon twice.
\<close>

theorem generateSVGIconsData_deterministic_witness:
  "sort_Slice_contract (insertion_sort :: (SVGIconData \<Rightarrow> SVGIconData \<Rightarrow> bool) \<Rightarrow> _)
   \<and> mset [colliding_cluster, other_cluster] = mset [other_cluster, colliding_cluster]
   \<and> generateSVGIconsData no_case_tables id insertion_sort never_done
       (Parsed [colliding_cluster, other_cluster])
     = Inr (insertion_sort (\<lambda>data_i data_j. ID data_i < ID data_j)
         (cluster_icons no_case_tables id [colliding_cluster, other_cluster]))
   \<and> generateSVGIconsData no_case_tables id insertion_sort never_done
       (Parsed [other_cluster, colliding_cluster])
     = Inr (insertion_sort (\<lambda>data_i data_j. ID data_i < ID data_j)
         (cluster_icons no_case_tables id [other_cluster, colliding_cluster]))
   \<and> map ID (insertion_sort (\<lambda>data_i data_j. ID data_i < ID data_j)
         (cluster_icons no_case_tables id [colliding_cluster, other_cluster]))
     = map ID (insertion_sort (\<lambda>data_i data_j. ID data_i < ID data_j)
         (cluster_icons no_case_tables id [other_cluster, colliding_cluster]))
   \<and> sorted (map ID (insertion_sort (\<lambda>data_i data_j. ID data_i < ID data_j)
         (cluster_icons no_case_tables id [colliding_cluster, other_cluster])))
   \<and> map ID (insertion_sort (\<lambda>data_i data_j. ID data_i < ID data_j)
         (cluster_icons no_case_tables id [colliding_cluster, other_cluster]))
     = [''svg-icons-animals-cat'', ''svg-icons-arrows-left'', ''svg-icons-arrows-left'']"
proof -
  let ?by_ID = "\<lambda>data_i data_j. ID data_i < ID data_j"
  let ?g1 = "generateSVGIconsData no_case_tables id insertion_sort never_done
       (Parsed [colliding_cluster, other_cluster])"
  let ?g2 = "generateSVGIconsData no_case_tables id insertion_sort never_done
       (Parsed [other_cluster, colliding_cluster])"
  let ?o1 = "insertion_sort ?by_ID (cluster_icons no_case_tables id [colliding_cluster, other_cluster])"
  let ?o2 = "insertion_sort ?by_ID (cluster_icons no_case_tables id [other_cluster, colliding_cluster])"
  have c: "sort_Slice_contract (insertion_sort :: (SVGIconData \<Rightarrow> SVGIconData \<Rightarrow> bool) \<Rightarrow> _)"
    by (rule insertion_sort_contract)
  have g1: "?g1 = Inr ?o1" and g2: "?g2 = Inr ?o2"
    by (rule generate_never_done)+
  have m: "mset [colliding_cluster, other_cluster] = mset [other_cluster, colliding_cluster]"
    by simp
  have v: "map ID ?o1 = [''svg-icons-animals-cat'', ''svg-icons-arrows-left'', ''svg-icons-arrows-left'']"
    by code_simp
  from generateSVGIconsData_deterministic[OF c g1 g2 m]
  have s: "sorted (map ID ?o1)" and e: "map ID ?o1 = map ID ?o2"
    by blast+
  show ?thesis
    using c m g1 g2 e s v by (intro conjI)
qed

text \<open>
  Claim C7 as stated fails. The folders \<open>arrow\<close> and \<open>arrow-left\<close> hold the icons \<open>left-up\<close>
  and \<open>up\<close>, which get the one id \<open>svg-icons-arrow-left-up\<close>. The comparison does not
  tell the two documents apart, so they leave the sort in the order in which the loop met
  them: a run that visits \<open>arrow\<close> first and a run that visits \<open>arrow-left\<close> first return
  different sequences of documents. The type \<open>SVGCluster\<close> is declared outside the sources; the
  loop discards the key of \<open>cluster.Clusters\<close>, and over a map Go visits the entries in an
  order that changes from run to run.
\<close>

theorem generateSVGIconsData_order_differs:
  "generateSVGIconsData no_case_tables id insertion_sort never_done
       (Parsed [arrow_cluster, arrow_left_cluster])
     = Inr [\<lparr>ID = ''svg-icons-arrow-left-up'', Name = ''Left Up'',
             Description = ''SVG icon for Left Up'',
             Path = ''/freedevtools/svg_icons/arrow/left-up/'',
             Image = ''/svg_icons/arrow/left-up.svg'', Category = ''svg_icons''\<rparr>,
            \<lparr>ID = ''svg-icons-arrow-left-up'', Name = ''Up'', Description = ''SVG icon for Up'',
             Path = ''/freedevtools/svg_icons/arrow-left/up/'',
             Image = ''/svg_icons/arrow-left/up.svg'', Category = ''svg_icons''\<rparr>]
   \<and> generateSVGIconsData no_case_tables id insertion_sort never_done
       (Parsed [arrow_left_cluster, arrow_cluster])
     = Inr [\<lparr>ID = ''svg-icons-arrow-left-up'', Name = ''Up'', Description = ''SVG icon for Up'',
             Path = ''/freedevtools/svg_icons/arrow-left/up/'',
             Image = ''/svg_icons/arrow-left/up.svg'', Category = ''svg_icons''\<rparr>,
            \<lparr>ID = ''svg-icons-arrow-left-up'', Name = ''Left Up'',
             Description = ''SVG icon for Left Up'',
             Path = ''/freedevtools/svg_icons/arrow/left-up/'',
             Image = ''/svg_icons/arrow/left-up.svg'', Category = ''svg_icons''\<rparr>]
   \<and> generateSVGIconsData no_case_tables id insertion_sort never_done
         (Parsed [arrow_cluster, arrow_left_cluster])
     \<noteq> generateSVGIconsData no_case_tables id insertion_sort never_done
         (Parsed [arrow_left_cluster, arrow_cluster])"
  by code_simp

section \<open>Records with one identifier\<close>

text \<open>
  Claim C1, as the code has it. The builder does not compare identifiers. A run that
  succeeds returns the documents of all records, one for each, so its ids are pairwise
  distinct exactly when those of the records are; a run on a parsed source whose context
  is not done when it is polled succeeds; and a run fails only because the file cannot be
  read, cannot be parsed, or the context is done.
\<close>

theorem generateSVGIconsData_keeps_every_record:
  assumes "sort_Slice_contract sort_Slice"
  shows "(generateSVGIconsData T sanitizeID sort_Slice done (Parsed clusters) = Inr out \<longrightarrow>
            mset out = mset (cluster_icons T sanitizeID clusters)
            \<and> distinct (map ID out) = distinct (map ID (cluster_icons T sanitizeID clusters)))
       \<and> ((\<forall>i<length clusters. \<not> done i) \<longrightarrow>
            generateSVGIconsData T sanitizeID sort_Slice done (Parsed clusters)
              = Inr (sort_Slice (\<lambda>data_i data_j. ID data_i < ID data_j)
                  (cluster_icons T sanitizeID clusters)))
       \<and> (generateSVGIconsData T sanitizeID sort_Slice done src = Inl err \<longrightarrow>
            src = Unreadable \<and> err = ReadFailed
            \<or> src = Unparseable \<and> err = ParseFailed
            \<or> err = ContextDone \<and> (\<exists>cl i. src = Parsed cl \<and> i < length cl \<and> done i))"
proof -
  have a: "mset out = mset (cluster_icons T sanitizeID clusters)
            \<and> distinct (map ID out) = distinct (map ID (cluster_icons T sanitizeID clusters))"
    if "generateSVGIconsData T sanitizeID sort_Slice done (Parsed clusters) = Inr out"
  proof -
    from that have o: "out = sort_Slice (\<lambda>data_i data_j. ID data_i < ID data_j)
        (cluster_icons T sanitizeID clusters)"
      by (rule generate_Parsed_Inr)
    then have m: "mset out = mset (cluster_icons T sanitizeID clusters)"
      by (simp add: sort_Slice_keeps[OF assms])
    from m have "mset (map ID out) = mset (map ID (cluster_icons T sanitizeID clusters))"
      by (metis mset_map)
    then have "distinct (map ID out) = distinct (map ID (cluster_icons T sanitizeID clusters))"
      by (rule mset_eq_imp_distinct_iff)
    with m show ?thesis by blast
  qed
  have c: "src = Unreadable \<and> err = ReadFailed
            \<or> src = Unparseable \<and> err = ParseFailed
            \<or> err = ContextDone \<and> (\<exists>cl i. src = Parsed cl \<and> i < length cl \<and> done i)"
    if "generateSVGIconsData T sanitizeID sort_Slice done src = Inl err"
  proof (cases src)
    case Unreadable
    with that show ?thesis by (simp add: generateSVGIconsData_def)
  next
    case Unparseable
    with that show ?thesis by (simp add: generateSVGIconsData_def)
  next
    case (Parsed cl)
    with that have "process_clusters T sanitizeID done 0 cl [] = Inl err"
      by (simp add: generateSVGIconsData_def split: sum.splits)
    from process_clusters_Inl[OF this] Parsed show ?thesis by auto
  qed
  from a c generate_not_done[of clusters "done" T sanitizeID sort_Slice] show ?thesis by blast
qed

text \<open>The theorem on a cluster with one icon and on the cluster with two file names for one icon.\<close>

theorem generateSVGIconsData_keeps_every_record_witness:
  "sort_Slice_contract (insertion_sort :: (SVGIconData \<Rightarrow> SVGIconData \<Rightarrow> bool) \<Rightarrow> _)
   \<and> generateSVGIconsData no_case_tables id insertion_sort never_done (Parsed [other_cluster])
     = Inr [\<lparr>ID = ''svg-icons-animals-cat'', Name = ''Cat'', Description = ''SVG icon for Cat'',
             Path = ''/freedevtools/svg_icons/animals/cat/'',
             Image = ''/svg_icons/animals/cat.svg'', Category = ''svg_icons''\<rparr>]
   \<and> distinct (map ID (cluster_icons no_case_tables id [other_cluster]))
   \<and> \<not> distinct (map ID (cluster_icons no_case_tables id [colliding_cluster]))
   \<and> \<not> distinct (map ID (insertion_sort (\<lambda>data_i data_j. ID data_i < ID data_j)
         (cluster_icons no_case_tables id [colliding_cluster])))"
proof -
  let ?by_ID = "\<lambda>data_i data_j. ID data_i < ID data_j"
  have k: "sort_Slice_contract (insertion_sort :: (SVGIconData \<Rightarrow> SVGIconData \<Rightarrow> bool) \<Rightarrow> _)"
    by (rule insertion_sort_contract)
  have n: "\<forall>i<length [other_cluster]. \<not> never_done i"
    by (simp add: never_done_def)
  have e: "insertion_sort ?by_ID (cluster_icons no_case_tables id [other_cluster])
     = [\<lparr>ID = ''svg-icons-animals-cat'', Name = ''Cat'', Description = ''SVG icon for Cat'',
             Path = ''/freedevtools/svg_icons/animals/cat/'',
             Image = ''/svg_icons/animals/cat.svg'', Category = ''svg_icons''\<rparr>]"
    by code_simp
  have d1: "distinct (map ID (cluster_icons no_case_tables id [other_cluster]))"
    by code_simp
  have d2: "\<not> distinct (map ID (cluster_icons no_case_tables id [colliding_cluster]))"
    by code_simp
  note t1 = generateSVGIconsData_keeps_every_record[OF k,
      of no_case_tables id never_done "[other_cluster]"]
  note t2 = generateSVGIconsData_keeps_every_record[OF k,
      of no_case_tables id never_done "[colliding_cluster]"]
  from t1 n have "generateSVGIconsData no_case_tables id insertion_sort never_done
      (Parsed [other_cluster])
      = Inr (insertion_sort ?by_ID (cluster_icons no_case_tables id [other_cluster]))"
    by blast
  then have g: "generateSVGIconsData no_case_tables id insertion_sort never_done
      (Parsed [other_cluster])
     = Inr [\<lparr>ID = ''svg-icons-animals-cat'', Name = ''Cat'', Description = ''SVG icon for Cat'',
             Path = ''/freedevtools/svg_icons/animals/cat/'',
             Image = ''/svg_icons/animals/cat.svg'', Category = ''svg_icons''\<rparr>]"
    unfolding e .
  have g2: "generateSVGIconsData no_case_tables id insertion_sort never_done
      (Parsed [colliding_cluster])
      = Inr (insertion_sort ?by_ID (cluster_icons no_case_tables id [colliding_cluster]))"
    by (rule generate_never_done)
  from t2 g2 d2
  have "\<not> distinct (map ID (insertion_sort ?by_ID
      (cluster_icons no_case_tables id [colliding_cluster])))"
    by blast
  with k g d1 d2 show ?thesis by blast
qed

text \<open>
  Claim C1 as stated fails: the file names \<open>_left.svg\<close> and \<open>left.svg\<close> of one folder give
  the same icon name, path and id, and the build succeeds with both documents.
\<close>

theorem generateSVGIconsData_duplicate_id:
  "generateSVGIconsData no_case_tables id insertion_sort never_done (Parsed [colliding_cluster])
     = Inr [\<lparr>ID = ''svg-icons-arrows-left'', Name = ''Left'', Description = ''SVG icon for Left'',
             Path = ''/freedevtools/svg_icons/arrows/left/'',
             Image = ''/svg_icons/arrows/_left.svg'', Category = ''svg_icons''\<rparr>,
            \<lparr>ID = ''svg-icons-arrows-left'', Name = ''Left'', Description = ''An arrow'',
             Path = ''/freedevtools/svg_icons/arrows/left/'',
             Image = ''/svg_icons/arrows/left.svg'', Category = ''svg_icons''\<rparr>]"
  by code_simp

section \<open>Display names of ASCII file names are formatted once and for all\<close>

lemma DecodeRuneInString_byte:
  "of_char c < (128::int) \<Longrightarrow> DecodeRuneInString (c # cs) = (of_char c, 1)"
  by (simp add: DecodeRuneInString_def utf8_first_def)

lemma utf8_runes_ascii: "is_ascii s \<Longrightarrow> utf8_runes s = map (\<lambda>c. (of_char c, [c])) s"
proof (induction s)
  case Nil
  show ?case by simp
next
  case (Cons c cs)
  then have "of_char c < (128::int)" and "is_ascii cs" by (simp_all add: is_ascii_def)
  with Cons.IH show ?case
    by (simp add: utf8_runes_Cons DecodeRuneInString_byte del: utf8_runes.simps)
qed

lemma fields_scan_ascii:
  "fields_scan (map (\<lambda>c. (of_char c, [c])) s) cur = byte_fields s cur"
  by (induction s arbitrary: cur) (simp_all add: space_byte_def)

lemma Fields_ascii: "is_ascii s \<Longrightarrow> strings_Fields s = byte_fields s []"
  by (simp add: strings_Fields_def utf8_runes_ascii fields_scan_ascii)

lemma byte_fields_word:
  "list_all (\<lambda>c. \<not> space_byte c) w \<Longrightarrow> byte_fields (w @ s) cur = byte_fields s (cur @ w)"
  by (induction w arbitrary: cur) simp_all

lemma space_is_space: "space_byte (CHR '' '')"
  by (simp add: space_byte_def unicode_IsSpace_def)

lemma byte_fields_Join:
  "list_all field ws \<Longrightarrow> byte_fields (strings_Join ws '' '') [] = ws"
proof (induction ws)
  case Nil
  show ?case by simp
next
  case (Cons w ws)
  then have w: "field w" and rest: "list_all field ws" by simp_all
  show ?case
  proof (cases ws)
    case Nil
    with w show ?thesis
      using byte_fields_word[of w "[]" "[]"] by (simp add: field_def)
  next
    case (Cons v vs)
    have "byte_fields (w @ '' '' @ strings_Join ws '' '') []
          = byte_fields ('' '' @ strings_Join ws '' '') w"
      using w byte_fields_word[of w _ "[]"] by (simp add: field_def)
    also have "\<dots> = w # byte_fields (strings_Join ws '' '') []"
      using w space_is_space by (simp add: field_def)
    also have "\<dots> = w # ws"
      using Cons.IH rest by simp
    finally show ?thesis using Cons by simp
  qed
qed

lemma byte_fields_words:
  "cur = [] \<or> field cur \<Longrightarrow> list_all field (byte_fields s cur)"
proof (induction s arbitrary: cur)
  case Nil
  then show ?case by auto
next
  case (Cons c cs)
  show ?case
  proof (cases "space_byte c")
    case True
    with Cons.prems Cons.IH[of "[]"] show ?thesis by auto
  next
    case False
    with Cons.prems have "field (cur @ [c])" by (auto simp: field_def)
    with False Cons.IH[of "cur @ [c]"] show ?thesis by simp
  qed
qed

lemma byte_fields_subset:
  "set (concat (byte_fields s cur)) \<subseteq> set s \<union> set cur"
proof (induction s arbitrary: cur)
  case Nil
  show ?case by simp
next
  case (Cons c cs)
  show ?case using Cons.IH[of "[]"] Cons.IH[of "cur @ [c]"] by auto
qed


lemma code_upper_byte:
  "(of_char (upper_byte c) :: nat) =
     (if 97 \<le> (of_char c :: nat) \<and> (of_char c :: nat) \<le> 122 then of_char c - 32 else of_char c)"
  by (auto simp: upper_byte_def less_eq_char_def)

lemma code_lower_byte:
  "(of_char (lower_byte c) :: nat) =
     (if 65 \<le> (of_char c :: nat) \<and> (of_char c :: nat) \<le> 90 then of_char c + 32 else of_char c)"
  by (auto simp: lower_byte_def less_eq_char_def)

lemma char_eqI: "(of_char c :: nat) = of_char d \<Longrightarrow> c = d"
  by simp

lemma upper_byte_idem: "upper_byte (upper_byte c) = upper_byte c"
  by (rule char_eqI) (auto simp: code_upper_byte)

lemma lower_byte_idem: "lower_byte (lower_byte c) = lower_byte c"
  by (rule char_eqI) (auto simp: code_lower_byte)


lemma int_code: "(of_char c :: int) = int (of_char c)"
  by (rule of_nat_of_char[symmetric])

lemma is_ascii_iff: "is_ascii s = list_all (\<lambda>c. (of_char c :: nat) < 128) s"
  unfolding is_ascii_def by (simp add: int_code[of _] list_all_iff)


lemma IsSpace_byte:
  "k < 256 \<Longrightarrow> unicode_IsSpace (int k) = (9 \<le> k \<and> k \<le> 13 \<or> k = 32 \<or> k = 133 \<or> k = 160)"
  by (auto simp: unicode_IsSpace_def)

lemma space_byte_code:
  "space_byte c = ((9 \<le> (of_char c :: nat) \<and> (of_char c :: nat) \<le> 13) \<or> (of_char c :: nat) = 32
     \<or> (of_char c :: nat) = 133 \<or> (of_char c :: nat) = 160)"
  unfolding space_byte_def int_code[of c] by (rule IsSpace_byte) simp

lemma underscore_code: "(of_char c :: nat) = 95 \<Longrightarrow> c = CHR ''_''"
proof -
  assume "(of_char c :: nat) = 95"
  then have "(of_char c :: nat) = of_char (CHR ''_'')" by simp
  then show "c = CHR ''_''" by (rule char_eqI)
qed

lemma hyphen_code: "(of_char c :: nat) = 45 \<Longrightarrow> c = CHR ''-''"
proof -
  assume "(of_char c :: nat) = 45"
  then have "(of_char c :: nat) = of_char (CHR ''-'')" by simp
  then show "c = CHR ''-''" by (rule char_eqI)
qed

lemma upper_byte_ascii: "(of_char c :: nat) < 128 \<Longrightarrow> (of_char (upper_byte c) :: nat) < 128"
  by (auto simp: code_upper_byte)

lemma lower_byte_ascii: "(of_char c :: nat) < 128 \<Longrightarrow> (of_char (lower_byte c) :: nat) < 128"
  by (auto simp: code_lower_byte)

lemma upper_byte_space: "\<not> space_byte c \<Longrightarrow> \<not> space_byte (upper_byte c)"
  by (auto simp: space_byte_code code_upper_byte)

lemma lower_byte_space: "\<not> space_byte c \<Longrightarrow> \<not> space_byte (lower_byte c)"
  by (auto simp: space_byte_code code_lower_byte)

lemma upper_byte_mark:
  assumes "upper_byte c = CHR ''_'' \<or> upper_byte c = CHR ''-''"
  shows "c = CHR ''_'' \<or> c = CHR ''-''"
proof -
  from assms have "(of_char (upper_byte c) :: nat) = 95 \<or> (of_char (upper_byte c) :: nat) = 45"
    by auto
  then have "(of_char c :: nat) = 95 \<or> (of_char c :: nat) = 45"
    by (auto simp: code_upper_byte split: if_splits)
  then show ?thesis using underscore_code hyphen_code by blast
qed

lemma lower_byte_mark:
  assumes "lower_byte c = CHR ''_'' \<or> lower_byte c = CHR ''-''"
  shows "c = CHR ''_'' \<or> c = CHR ''-''"
proof -
  from assms have "(of_char (lower_byte c) :: nat) = 95 \<or> (of_char (lower_byte c) :: nat) = 45"
    by auto
  then have "(of_char c :: nat) = 95 \<or> (of_char c :: nat) = 45"
    by (auto simp: code_lower_byte split: if_splits)
  then show ?thesis using underscore_code hyphen_code by blast
qed


lemma name_byte_case: "name_byte c \<Longrightarrow> name_byte (upper_byte c) \<and> name_byte (lower_byte c)"
  unfolding name_byte_def
  using upper_byte_ascii[of c] lower_byte_ascii[of c] upper_byte_space[of c] lower_byte_space[of c]
    upper_byte_mark[of c] lower_byte_mark[of c]
  by blast

lemma name_word_titled: "name_word w \<Longrightarrow> name_word (titled w)"
  by (cases w) (auto simp: name_word_def titled_def list_all_iff dest: name_byte_case)

lemma titled_idem: "titled (titled w) = titled w"
  by (simp add: titled_def upper_byte_idem lower_byte_idem comp_def)

lemma name_word_field: "name_word w \<Longrightarrow> field w"
  by (auto simp: name_word_def field_def name_byte_def list_all_iff)

lemma name_word_ascii: "name_word w \<Longrightarrow> is_ascii w"
  by (auto simp: name_word_def name_byte_def is_ascii_iff list_all_iff)

lemma title_word_ascii:
  assumes "is_ascii w" and "w \<noteq> []"
  shows "title_word T w = titled w"
proof -
  from assms obtain c cs where w: "w = c # cs" by (cases w) auto
  with assms(1) have "is_ascii [c]" and "is_ascii cs" by (simp_all add: is_ascii_def)
  with w show ?thesis
    by (simp add: title_word_def titled_def strings_ToUpper_def strings_ToLower_def)
qed

lemma Replace_marks:
  "strings_Replace (strings_Replace s ''_'' '' '' (- 1)) ''-'' '' '' (- 1) = spaced s"
  by (simp add: strings_Replace_def replace_scan_char spaced_def)

lemma is_ascii_spaced: "is_ascii s \<Longrightarrow> is_ascii (spaced s)"
  by (auto simp: is_ascii_def spaced_def list_all_iff)

lemma spaced_fields:
  assumes "is_ascii s"
  shows "list_all name_word (byte_fields (spaced s) [])"
proof -
  have w: "list_all field (byte_fields (spaced s) [])"
    by (rule byte_fields_words) simp
  have sub: "set (concat (byte_fields (spaced s) [])) \<subseteq> set (spaced s)"
    using byte_fields_subset[of "spaced s" "[]"] by simp
  have good: "(of_char c :: nat) < 128 \<and> c \<noteq> CHR ''_'' \<and> c \<noteq> CHR ''-''" if "c \<in> set (spaced s)" for c
    using that assms by (auto simp: spaced_def is_ascii_iff list_all_iff)
  show ?thesis
    unfolding list_all_iff name_word_def name_byte_def
  proof (intro ballI conjI)
    fix v assume v: "v \<in> set (byte_fields (spaced s) [])"
    with w show "v \<noteq> []" by (auto simp: list_all_iff field_def)
    fix c assume c: "c \<in> set v"
    with v sub have "c \<in> set (spaced s)" by auto
    from good[OF this] show "(of_char c :: nat) < 128" "c \<noteq> CHR ''_''" "c \<noteq> CHR ''-''"
      by simp_all
    from v w c show "\<not> space_byte c" by (auto simp: list_all_iff field_def)
  qed
qed

lemma formatIconName_ascii:
  assumes "is_ascii x"
  shows "formatIconName T x = strings_Join (map titled (byte_fields (spaced x) [])) '' ''"
proof -
  have "map (title_word T) (byte_fields (spaced x) []) = map titled (byte_fields (spaced x) [])"
  proof (rule map_cong[OF refl])
    fix w assume "w \<in> set (byte_fields (spaced x) [])"
    with spaced_fields[OF assms] have "name_word w" by (simp add: list_all_iff)
    then show "title_word T w = titled w"
      by (intro title_word_ascii name_word_ascii) (simp_all add: name_word_def)
  qed
  moreover have "formatIconName T x =
      strings_Join (map (title_word T) (byte_fields (spaced x) [])) '' ''"
    using assms by (simp add: formatIconName_def Replace_marks Fields_ascii is_ascii_spaced)
  ultimately show ?thesis by (simp only:)
qed

lemma set_Join: "set (strings_Join ws sep) \<subseteq> set (concat ws) \<union> set sep"
  by (induction ws sep rule: strings_Join.induct) auto

lemma spaced_id: "(\<And>c. c \<in> set s \<Longrightarrow> c \<noteq> CHR ''_'' \<and> c \<noteq> CHR ''-'') \<Longrightarrow> spaced s = s"
  by (induction s) (auto simp: spaced_def)

text \<open>
  On a name that is all ASCII, formatting the formatted name changes nothing.
\<close>

lemma formatIconName_idempotent_ascii:
  assumes "is_ascii x"
  shows "formatIconName T (formatIconName T x) = formatIconName T x"
proof -
  let ?ws = "map titled (byte_fields (spaced x) [])"
  let ?y = "strings_Join ?ws '' ''"
  have ws: "list_all name_word ?ws"
    using spaced_fields[OF assms] by (auto simp: list_all_iff intro: name_word_titled)
  have in_y: "name_byte c \<or> c = CHR '' ''" if "c \<in> set ?y" for c
  proof -
    from that set_Join[of ?ws "'' ''"] have "c \<in> set (concat ?ws) \<or> c = CHR '' ''" by auto
    with ws show ?thesis by (auto simp: list_all_iff name_word_def)
  qed
  have ascii_y: "is_ascii ?y"
    unfolding is_ascii_iff list_all_iff
  proof
    fix c assume "c \<in> set ?y"
    from in_y[OF this] show "(of_char c :: nat) < 128" by (auto simp: name_byte_def)
  qed
  have "spaced ?y = ?y"
  proof (rule spaced_id)
    fix c assume "c \<in> set ?y"
    from in_y[OF this] show "c \<noteq> CHR ''_'' \<and> c \<noteq> CHR ''-''"
      by (auto simp: name_byte_def)
  qed
  moreover have "byte_fields ?y [] = ?ws"
    by (rule byte_fields_Join) (use ws in \<open>auto simp: list_all_iff intro: name_word_field\<close>)
  ultimately have f: "formatIconName T ?y = strings_Join (map titled ?ws) '' ''"
    using formatIconName_ascii[OF ascii_y, of T] by simp
  have t: "map titled ?ws = ?ws"
    by (simp add: titled_idem comp_def)
  have x: "formatIconName T x = ?y"
    by (rule formatIconName_ascii[OF assms])
  show ?thesis
    unfolding x f t ..
qed

section \<open>Display names beyond ASCII\<close>

lemma EncodeRune_RuneError: "EncodeRune 65533 = [CHR 0xEF, CHR 0xBF, CHR 0xBD]"
  by code_simp

text \<open>
  Claim C4 says that formatting a name twice is formatting it once. \<open>word[:1]\<close> is the first
  byte of the word, not its first character: for a word that starts with a character of
  several bytes, \<open>strings.ToUpper\<close> and \<open>strings.ToLower\<close> are given pieces that are not
  UTF-8 and write U+FFFD for each byte. For the name that is the letter e with an acute accent (the bytes C3 A9) and any case
  tables that leave U+FFFD alone, the first pass gives two U+FFFD and the second four.
\<close>

theorem formatIconName_not_idempotent:
  assumes "upper_of T 0xFFFD = 0xFFFD" and "lower_of T 0xFFFD = 0xFFFD"
  shows "formatIconName T [CHR 0xC3, CHR 0xA9]
           = [CHR 0xEF, CHR 0xBF, CHR 0xBD, CHR 0xEF, CHR 0xBF, CHR 0xBD]
       \<and> formatIconName T (formatIconName T [CHR 0xC3, CHR 0xA9])
           = [CHR 0xEF, CHR 0xBF, CHR 0xBD, CHR 0xEF, CHR 0xBF, CHR 0xBD,
              CHR 0xEF, CHR 0xBF, CHR 0xBD, CHR 0xEF, CHR 0xBF, CHR 0xBD]
       \<and> formatIconName T (formatIconName T [CHR 0xC3, CHR 0xA9])
           \<noteq> formatIconName T [CHR 0xC3, CHR 0xA9]"
proof -
  have up: "unicode_ToUpper T 65533 = 65533" and lo: "unicode_ToLower T 65533 = 65533"
    using assms by (simp_all add: unicode_ToUpper_def unicode_ToLower_def)
  have one: "formatIconName T [CHR 0xC3, CHR 0xA9]
           = [CHR 0xEF, CHR 0xBF, CHR 0xBD, CHR 0xEF, CHR 0xBF, CHR 0xBD]"
    by (simp add: formatIconName_def strings_Replace_def has_prefix_def strings_Fields_def
        DecodeRuneInString_def utf8_first_def continuation_def unicode_IsSpace_def
        title_word_def strings_ToUpper_def strings_ToLower_def is_ascii_def strings_Map_def
        RuneError_def up lo EncodeRune_RuneError)
  have two: "formatIconName T [CHR 0xEF, CHR 0xBF, CHR 0xBD, CHR 0xEF, CHR 0xBF, CHR 0xBD]
           = [CHR 0xEF, CHR 0xBF, CHR 0xBD, CHR 0xEF, CHR 0xBF, CHR 0xBD,
              CHR 0xEF, CHR 0xBF, CHR 0xBD, CHR 0xEF, CHR 0xBF, CHR 0xBD]"
    by (simp add: formatIconName_def strings_Replace_def has_prefix_def strings_Fields_def
        DecodeRuneInString_def utf8_first_def continuation_def unicode_IsSpace_def
        title_word_def strings_ToUpper_def strings_ToLower_def is_ascii_def strings_Map_def
        RuneError_def up lo EncodeRune_RuneError)
  from one two show ?thesis by simp
qed

text \<open>The theorem with case tables that have no pair beyond ASCII.\<close>

theorem formatIconName_not_idempotent_witness:
  "upper_of no_case_tables 0xFFFD = 0xFFFD \<and> lower_of no_case_tables 0xFFFD = 0xFFFD
   \<and> formatIconName no_case_tables (formatIconName no_case_tables [CHR 0xC3, CHR 0xA9])
       \<noteq> formatIconName no_case_tables [CHR 0xC3, CHR 0xA9]"
proof -
  have a: "upper_of no_case_tables 0xFFFD = 0xFFFD" and b: "lower_of no_case_tables 0xFFFD = 0xFFFD"
    by (simp_all add: no_case_tables_def)
  from formatIconName_not_idempotent[OF a b] a b show ?thesis by blast
qed

end
